theory Spec2Isabelle
  imports Main
begin

section \<open>Data model of ExpressDecoratedRouter.ts\<close>

text \<open>
  Controller classes and request handlers are JavaScript function objects that the source
  uses as \<open>Map\<close> keys, so only their identity matters: both are tokens.  Paths are the
  keys of an \<open>HttpMethodSpec\<close> map and HTTP method names are the property names of a
  \<open>RouteSpec\<close> object.  A method name is any string: \<open>router[httpMethod](...)\<close> is
  recorded as the call it is, whatever the name.
\<close>

type_synonym ctrl = nat
type_synonym handler = nat
type_synonym path = string
type_synonym http_method = string

record router_options =
  caseSensitive :: "bool option"
  mergeParams :: "bool option"
  strict :: "bool option"

record controllerSpec =
  opts :: "router_options option"
  root :: path

text \<open>
  A JavaScript \<open>Map\<close> iterates in insertion order, and \<open>set\<close> on a key that is
  present replaces the value where it stands: an association list, updated in place or
  extended at the end.
\<close>

type_synonym ('k, 'v) jsmap = "('k \<times> 'v) list"

fun map_set :: "('k, 'v) jsmap \<Rightarrow> 'k \<Rightarrow> 'v \<Rightarrow> ('k, 'v) jsmap" where
  "map_set [] k v = [(k, v)]"
| "map_set ((k', v') # m) k v = (if k' = k then (k, v) # m else (k', v') # map_set m k v)"

fun map_get :: "('k, 'v) jsmap \<Rightarrow> 'k \<Rightarrow> 'v option" where
  "map_get [] k = None"
| "map_get ((k', v') # m) k = (if k' = k then Some v' else map_get m k)"

definition map_has :: "('k, 'v) jsmap \<Rightarrow> 'k \<Rightarrow> bool" where
  "map_has m k = (map_get m k \<noteq> None)"

type_synonym httpMethodSpec = "(path, handler) jsmap"
type_synonym routeSpec = "(http_method, httpMethodSpec) jsmap"

text \<open>
  A \<open>RouteSpec\<close> is a plain object created by \<open>{}\<close>.  Reading \<open>routeSpec[name]\<close>
  finds an own property or else a property of \<open>Object.prototype\<close>; the standard ones are
  listed below, and each is a function or an object, hence truthy.  The own properties are
  enumerated with the array indices first, in ascending order, and then the other names in
  the order of their creation; the list of a route spec is kept in that order.  An array
  index is the canonical decimal form of a number below 4294967295.
\<close>

definition object_prototype_keys :: "string list" where
  "object_prototype_keys =
     [''constructor'', ''__defineGetter__'', ''__defineSetter__'', ''hasOwnProperty'',
      ''__lookupGetter__'', ''__lookupSetter__'', ''isPrototypeOf'', ''propertyIsEnumerable'',
      ''toString'', ''valueOf'', ''__proto__'', ''toLocaleString'']"

definition inherited :: "string \<Rightarrow> bool" where
  "inherited name = (name \<in> set object_prototype_keys)"

definition is_digit :: "char \<Rightarrow> bool" where
  "is_digit c = (48 \<le> (of_char c :: nat) \<and> (of_char c :: nat) \<le> 57)"

fun dec_value :: "nat \<Rightarrow> string \<Rightarrow> nat" where
  "dec_value acc [] = acc"
| "dec_value acc (c # cs) = dec_value (10 * acc + (of_char c - 48)) cs"

definition array_index :: "string \<Rightarrow> nat option" where
  "array_index name =
     (if name \<noteq> [] \<and> list_all is_digit name \<and> (length name = 1 \<or> hd name \<noteq> CHR ''0'')
         \<and> dec_value 0 name \<le> 4294967294
      then Some (dec_value 0 name) else None)"

fun insert_index :: "nat \<Rightarrow> string \<Rightarrow> 'v \<Rightarrow> (string, 'v) jsmap \<Rightarrow> (string, 'v) jsmap" where
  "insert_index i k v [] = [(k, v)]"
| "insert_index i k v ((k', v') # m) =
     (case array_index k' of
        Some j \<Rightarrow> if j < i then (k', v') # insert_index i k v m else (k, v) # (k', v') # m
      | None \<Rightarrow> (k, v) # (k', v') # m)"

definition obj_set :: "(string, 'v) jsmap \<Rightarrow> string \<Rightarrow> 'v \<Rightarrow> (string, 'v) jsmap" where
  "obj_set m k v =
     (if map_has m k then map_set m k v
      else case array_index k of Some i \<Rightarrow> insert_index i k v m | None \<Rightarrow> m @ [(k, v)])"

text \<open>
  The host framework is outside the repository.  A router is either one the caller owns
  (the \<open>app\<close> argument of \<open>applyRoutes\<close>) or one that \<open>createRouter\<close> returned, numbered
  in the order of creation; the module never hands its routers out, so the caller cannot
  pass one of them back.  What the module does to the framework is the sequence of calls
  it makes, recorded oldest first; what the framework does with a call is not part of the
  model, and every call is taken to return.
\<close>

datatype router = External nat | Created nat

datatype call =
    Use "handler list"
  | UsePath path "handler list"
  | Verb http_method path handler
  | Mount path router

datatype event =
    Create nat "router_options option"
  | Call router call

datatype error =
    ParentControllerError ctrl ctrl
  | UnregisteredControllerError ctrl
  | TypeError

record world =
  routeMap :: "(ctrl, routeSpec) jsmap"
  controllerMap :: "(ctrl, controllerSpec) jsmap"
  controllerMiddlewareMap :: "(ctrl, handler list) jsmap"
  routeMiddlewareMap :: "(handler, handler list) jsmap"
  routerMap :: "(ctrl, router) jsmap"
  parentMap :: "(ctrl, ctrl) jsmap"
  created :: nat
  trace :: "event list"

definition initial :: world where
  "initial = \<lparr>routeMap = [], controllerMap = [], controllerMiddlewareMap = [],
     routeMiddlewareMap = [], routerMap = [], parentMap = [], created = 0, trace = []\<rparr>"

section \<open>Registration\<close>

text \<open>
  Each operation sets one entry of one table; \<open>addRoute\<close> alone can throw, and returns
  the error, if any, with the world it leaves.  The calls to the debug logger, here and in
  the assembly, have no effect on the tables or on the routers and are left out.
\<close>

definition addController :: "ctrl \<Rightarrow> path \<Rightarrow> router_options option \<Rightarrow> world \<Rightarrow> world" where
  "addController clazz rt os w =
     w\<lparr>controllerMap := map_set (controllerMap w) clazz \<lparr>opts = os, root = rt\<rparr>\<rparr>"

definition addControllerMiddleware :: "ctrl \<Rightarrow> handler list \<Rightarrow> world \<Rightarrow> world" where
  "addControllerMiddleware clazz middleware w =
     w\<lparr>controllerMiddlewareMap := map_set (controllerMiddlewareMap w) clazz middleware\<rparr>"

definition addParent :: "ctrl \<Rightarrow> ctrl \<Rightarrow> world \<Rightarrow> world" where
  "addParent child parent w = w\<lparr>parentMap := map_set (parentMap w) child parent\<rparr>"

text \<open>
  \<open>addRoute\<close> stores a new, empty route spec when the controller has none (an object is
  truthy, so only a missing entry takes the creating branch).  It then reads
  \<open>routeSpec[httpMethod]\<close>: an own property is the method's \<open>Map\<close>; with no own property
  and an inherited one, the value read is truthy but no \<open>Map\<close>, no map is created, and
  \<open>httpMethodSpec.set\<close> throws a \<open>TypeError\<close>; with neither, a new \<open>Map\<close> becomes a
  property of the route spec.  The objects are shared with \<open>routeMap\<close>, so each update is
  seen there, at the position the entry already has.
\<close>

definition addRoute :: "ctrl \<Rightarrow> http_method \<Rightarrow> path \<Rightarrow> handler \<Rightarrow> world \<Rightarrow> error option \<times> world" where
  "addRoute clazz httpMethod pth hdl w =
     (let (rs, w1) = (case map_get (routeMap w) clazz of
                        None \<Rightarrow> ([], w\<lparr>routeMap := map_set (routeMap w) clazz []\<rparr>)
                      | Some rs' \<Rightarrow> (rs', w))
      in case map_get rs httpMethod of
           Some ms \<Rightarrow>
             (None, w1\<lparr>routeMap :=
                map_set (routeMap w1) clazz (map_set rs httpMethod (map_set ms pth hdl))\<rparr>)
         | None \<Rightarrow>
             if inherited httpMethod then (Some TypeError, w1)
             else (None, w1\<lparr>routeMap :=
                map_set (routeMap w1) clazz (obj_set rs httpMethod (map_set [] pth hdl))\<rparr>))"

definition addRouteMiddleware :: "handler \<Rightarrow> handler list \<Rightarrow> world \<Rightarrow> world" where
  "addRouteMiddleware route middleware w =
     w\<lparr>routeMiddlewareMap := map_set (routeMiddlewareMap w) route middleware\<rparr>"

definition reset :: "world \<Rightarrow> world" where
  "reset w = w\<lparr>routeMap := [], controllerMap := [], controllerMiddlewareMap := [],
     routeMiddlewareMap := [], routerMap := [], parentMap := []\<rparr>"

section \<open>Assembly\<close>

definition emit :: "event \<Rightarrow> world \<Rightarrow> world" where
  "emit e w = w\<lparr>trace := trace w @ [e]\<rparr>"

definition createRouter :: "router_options option \<Rightarrow> world \<Rightarrow> router \<times> world" where
  "createRouter os w =
     (Created (created w), emit (Create (created w) os) (w\<lparr>created := Suc (created w)\<rparr>))"

definition processControllerMiddleware :: "router \<Rightarrow> ctrl \<Rightarrow> world \<Rightarrow> world" where
  "processControllerMiddleware rtr controller w =
     (case map_get (controllerMiddlewareMap w) controller of
        Some controllerMiddleware \<Rightarrow> emit (Call rtr (Use controllerMiddleware)) w
      | None \<Rightarrow> w)"

definition processRouteMiddleware :: "router \<Rightarrow> path \<Rightarrow> handler list option \<Rightarrow> world \<Rightarrow> world" where
  "processRouteMiddleware rtr pathParams routeMiddleware w =
     (case routeMiddleware of
        Some ms \<Rightarrow> if ms \<noteq> [] then emit (Call rtr (UsePath pathParams ms)) w else w
      | None \<Rightarrow> w)"

definition processHttpMethodSpec :: "router \<Rightarrow> path \<Rightarrow> handler \<Rightarrow> http_method \<Rightarrow> world \<Rightarrow> world" where
  "processHttpMethodSpec rtr pathParams requestHandler httpMethod w =
     emit (Call rtr (Verb httpMethod pathParams requestHandler))
       (processRouteMiddleware rtr pathParams (map_get (routeMiddlewareMap w) requestHandler) w)"

definition processRouteSpec :: "router \<Rightarrow> ctrl \<Rightarrow> http_method \<Rightarrow> httpMethodSpec \<Rightarrow> world \<Rightarrow> world" where
  "processRouteSpec rtr controller httpMethod spec w =
     fold (\<lambda>(pathParams, requestHandler). processHttpMethodSpec rtr pathParams requestHandler httpMethod)
       spec w"

definition processController :: "router \<Rightarrow> ctrl \<Rightarrow> controllerSpec \<Rightarrow> world \<Rightarrow> world" where
  "processController app controller cspec w =
     (case map_get (routeMap w) controller of
        None \<Rightarrow> w
      | Some rs \<Rightarrow>
          if rs = [] then w
          else
            (let (rtr, w1) = createRouter (opts cspec) w;
                 w2 = processControllerMiddleware rtr controller w1;
                 w3 = fold (\<lambda>(httpMethod, spec). processRouteSpec rtr controller httpMethod spec) rs w2;
                 w4 = w3\<lparr>routerMap := map_set (routerMap w3) controller rtr\<rparr>
             in if \<not> map_has (parentMap w4) controller
                then emit (Call app (Mount (root cspec) rtr)) w4
                else w4))"

text \<open>
  \<open>processParents\<close> throws when a router is missing.  The child's controller spec is
  read with an unchecked cast, so a missing spec would surface as a \<open>TypeError\<close> at
  \<open>childSpec.root\<close>, after the parent's middleware has been handed to the child's router.
\<close>

definition processParents :: "ctrl \<Rightarrow> ctrl \<Rightarrow> world \<Rightarrow> error option \<times> world" where
  "processParents child parent w =
     (case map_get (routerMap w) parent of
        None \<Rightarrow> (Some (ParentControllerError child parent), w)
      | Some parentRouter \<Rightarrow>
          (case map_get (routerMap w) child of
             None \<Rightarrow> (Some (UnregisteredControllerError child), w)
           | Some childRouter \<Rightarrow>
               (let childSpec = map_get (controllerMap w) child;
                    parentMiddleware = map_get (controllerMiddlewareMap w) parent;
                    w1 = (case parentMiddleware of
                            Some ms \<Rightarrow> if ms \<noteq> [] then emit (Call childRouter (Use ms)) w else w
                          | None \<Rightarrow> w)
                in case childSpec of
                     None \<Rightarrow> (Some TypeError, w1)
                   | Some cs \<Rightarrow> (None, emit (Call parentRouter (Mount (root cs) childRouter)) w1))))"

text \<open>
  \<open>applyRoutes\<close> is two loops: \<open>pass1\<close> over the entries of \<open>controllerMap\<close> and
  \<open>pass2\<close> over the entries of \<open>parentMap\<close>, the second left by the first exception.
  Neither loop changes the map it iterates.
\<close>

definition pass1 :: "router \<Rightarrow> (ctrl, controllerSpec) jsmap \<Rightarrow> world \<Rightarrow> world" where
  "pass1 app entries w = fold (\<lambda>(controller, cspec). processController app controller cspec) entries w"

fun pass2 :: "(ctrl, ctrl) jsmap \<Rightarrow> world \<Rightarrow> error option \<times> world" where
  "pass2 [] w = (None, w)"
| "pass2 ((child, parent) # rest) w =
     (case processParents child parent w of
        (Some e, w') \<Rightarrow> (Some e, w')
      | (None, w') \<Rightarrow> pass2 rest w')"

definition applyRoutes :: "router \<Rightarrow> world \<Rightarrow> error option \<times> world" where
  "applyRoutes app w = (let w1 = pass1 app (controllerMap w) w in pass2 (parentMap w1) w1)"

section \<open>Executions and what they leave behind\<close>

text \<open>
  The module's public surface: the five registration operations (reached through the
  decorators), \<open>applyRoutes\<close> on a router of the caller, and \<open>reset\<close>.  An exception
  thrown by \<open>addRoute\<close> or \<open>applyRoutes\<close> leaves the tables and the calls already made
  as they are, and the caller may go on.
\<close>

datatype op =
    AddController ctrl path "router_options option"
  | AddControllerMiddleware ctrl "handler list"
  | AddParent ctrl ctrl
  | AddRoute ctrl http_method path handler
  | AddRouteMiddleware handler "handler list"
  | ApplyRoutes nat
  | Reset

fun perform :: "op \<Rightarrow> world \<Rightarrow> world" where
  "perform (AddController c rt os) w = addController c rt os w"
| "perform (AddControllerMiddleware c ms) w = addControllerMiddleware c ms w"
| "perform (AddParent child parent) w = addParent child parent w"
| "perform (AddRoute c m p h) w = snd (addRoute c m p h w)"
| "perform (AddRouteMiddleware h ms) w = addRouteMiddleware h ms w"
| "perform (ApplyRoutes a) w = snd (applyRoutes (External a) w)"
| "perform Reset w = reset w"

definition run :: "op list \<Rightarrow> world \<Rightarrow> world" where
  "run ops w = fold perform ops w"

fun is_registration :: "op \<Rightarrow> bool" where
  "is_registration (ApplyRoutes a) = False"
| "is_registration Reset = False"
| "is_registration x = True"

inductive reachable :: "world \<Rightarrow> bool" where
  reachable_initial: "reachable initial"
| reachable_perform: "reachable w \<Longrightarrow> reachable (perform x w)"

text \<open>The calls an operation added to the trace, and those of them made on one router.\<close>

definition new_events :: "world \<Rightarrow> world \<Rightarrow> event list" where
  "new_events w w' = drop (length (trace w)) (trace w')"

fun calls_on :: "router \<Rightarrow> event list \<Rightarrow> call list" where
  "calls_on r [] = []"
| "calls_on r (Create n os # es) = calls_on r es"
| "calls_on r (Call r' c # es) = (if r' = r then c # calls_on r es else calls_on r es)"

text \<open>Where a router was mounted: the receiving router and the path, in call order.\<close>

fun mounts_of :: "router \<Rightarrow> event list \<Rightarrow> (router \<times> path) list" where
  "mounts_of r [] = []"
| "mounts_of r (Call tgt (Mount p r') # es) =
     (if r' = r then (tgt, p) # mounts_of r es else mounts_of r es)"
| "mounts_of r (e # es) = mounts_of r es"

text \<open>The handlers registered for one method and path, in call order.\<close>

fun handlers_at :: "http_method \<Rightarrow> path \<Rightarrow> call list \<Rightarrow> handler list" where
  "handlers_at m p [] = []"
| "handlers_at m p (Verb m' p' h # cs) =
     (if m' = m \<and> p' = p then h # handlers_at m p cs else handlers_at m p cs)"
| "handlers_at m p (c # cs) = handlers_at m p cs"

fun is_global_use :: "call \<Rightarrow> bool" where
  "is_global_use (Use ms) = True"
| "is_global_use c = False"

definition route_lookup :: "world \<Rightarrow> ctrl \<Rightarrow> http_method \<Rightarrow> path \<Rightarrow> handler option" where
  "route_lookup w c m p =
     (case map_get (routeMap w) c of
        None \<Rightarrow> None
      | Some rs \<Rightarrow> (case map_get rs m of None \<Rightarrow> None | Some ms \<Rightarrow> map_get ms p))"

text \<open>The calls each part of \<open>processController\<close> makes, as lists.\<close>

definition controller_middleware_events :: "world \<Rightarrow> router \<Rightarrow> ctrl \<Rightarrow> event list" where
  "controller_middleware_events w rtr c =
     (case map_get (controllerMiddlewareMap w) c of Some ms \<Rightarrow> [Call rtr (Use ms)] | None \<Rightarrow> [])"

definition route_middleware_events :: "world \<Rightarrow> router \<Rightarrow> path \<Rightarrow> handler \<Rightarrow> event list" where
  "route_middleware_events w rtr p h =
     (case map_get (routeMiddlewareMap w) h of
        Some ms \<Rightarrow> if ms \<noteq> [] then [Call rtr (UsePath p ms)] else []
      | None \<Rightarrow> [])"

definition handler_events :: "world \<Rightarrow> router \<Rightarrow> http_method \<Rightarrow> path \<times> handler \<Rightarrow> event list" where
  "handler_events w rtr m ph =
     route_middleware_events w rtr (fst ph) (snd ph) @ [Call rtr (Verb m (fst ph) (snd ph))]"

definition method_events :: "world \<Rightarrow> router \<Rightarrow> http_method \<times> httpMethodSpec \<Rightarrow> event list" where
  "method_events w rtr ms = concat (map (handler_events w rtr (fst ms)) (snd ms))"

definition mount_events :: "world \<Rightarrow> router \<Rightarrow> ctrl \<Rightarrow> controllerSpec \<Rightarrow> router \<Rightarrow> event list" where
  "mount_events w app c cspec rtr =
     (if map_has (parentMap w) c then [] else [Call app (Mount (root cspec) rtr)])"

definition controller_events :: "world \<Rightarrow> router \<Rightarrow> ctrl \<Rightarrow> controllerSpec \<Rightarrow> routeSpec \<Rightarrow> event list" where
  "controller_events w app c cspec rs =
     Create (created w) (opts cspec) # controller_middleware_events w (Created (created w)) c
       @ concat (map (method_events w (Created (created w))) rs)
       @ mount_events w app c cspec (Created (created w))"

definition parent_middleware_events :: "world \<Rightarrow> ctrl \<Rightarrow> router \<Rightarrow> event list" where
  "parent_middleware_events w parent childRouter =
     (case map_get (controllerMiddlewareMap w) parent of
        Some ms \<Rightarrow> if ms \<noteq> [] then [Call childRouter (Use ms)] else []
      | None \<Rightarrow> [])"

definition emits :: "event list \<Rightarrow> world \<Rightarrow> world" where
  "emits es w = w\<lparr>trace := trace w @ es\<rparr>"

text \<open>Invariants of the tables.\<close>

definition unique_keys :: "('k, 'v) jsmap \<Rightarrow> bool" where
  "unique_keys m = distinct (map fst m)"

definition well_keyed :: "world \<Rightarrow> bool" where
  "well_keyed w \<longleftrightarrow>
     unique_keys (routeMap w) \<and> unique_keys (controllerMap w) \<and>
     unique_keys (controllerMiddlewareMap w) \<and> unique_keys (routeMiddlewareMap w) \<and>
     unique_keys (routerMap w) \<and> unique_keys (parentMap w) \<and>
     list_all (\<lambda>(c, rs). unique_keys rs \<and> list_all (\<lambda>(m, ms). unique_keys ms) rs) (routeMap w)"

definition routers_have_spec :: "world \<Rightarrow> bool" where
  "routers_have_spec w = list_all (\<lambda>(c, r). map_has (controllerMap w) c) (routerMap w)"

definition has_routes :: "world \<Rightarrow> ctrl \<Rightarrow> bool" where
  "has_routes w c = (case map_get (routeMap w) c of None \<Rightarrow> False | Some rs \<Rightarrow> rs \<noteq> [])"

definition routers_have_routes :: "world \<Rightarrow> bool" where
  "routers_have_routes w = list_all (\<lambda>(c, r). has_routes w c) (routerMap w)"

text \<open>Renumbering the routers created in a later cycle.\<close>

fun shift_router :: "nat \<Rightarrow> router \<Rightarrow> router" where
  "shift_router n (External a) = External a"
| "shift_router n (Created k) = Created (n + k)"

fun shift_call :: "nat \<Rightarrow> call \<Rightarrow> call" where
  "shift_call n (Mount p r) = Mount p (shift_router n r)"
| "shift_call n c = c"

fun shift_event :: "nat \<Rightarrow> event \<Rightarrow> event" where
  "shift_event n (Create k os) = Create (n + k) os"
| "shift_event n (Call r c) = Call (shift_router n r) (shift_call n c)"

definition same_tables :: "world \<Rightarrow> world \<Rightarrow> bool" where
  "same_tables w w' \<longleftrightarrow>
     routeMap w = routeMap w' \<and> controllerMap w = controllerMap w' \<and>
     controllerMiddlewareMap w = controllerMiddlewareMap w' \<and>
     routeMiddlewareMap w = routeMiddlewareMap w' \<and> parentMap w = parentMap w'"

definition shift_routers :: "nat \<Rightarrow> (ctrl, router) jsmap \<Rightarrow> (ctrl, router) jsmap" where
  "shift_routers n m = map (\<lambda>(c, r). (c, shift_router n r)) m"

text \<open>
  Two worlds with the same registrations, the second of which has created \<open>n\<close> routers
  and made the calls \<open>t\<close> before the current cycle.
\<close>

definition renumbered :: "nat \<Rightarrow> event list \<Rightarrow> world \<Rightarrow> world \<Rightarrow> bool" where
  "renumbered n t w0 w \<longleftrightarrow>
     same_tables w0 w \<and> routerMap w = shift_routers n (routerMap w0) \<and>
     created w = n + created w0 \<and> trace w = t @ map (shift_event n) (trace w0)"

text \<open>
  A small application: controller 1 at \<open>/a\<close> with middleware and one route (whose
  handler has middleware too), controller 2
  at \<open>/b\<close> nested under it with a route that has middleware of its own, and controller 3
  declared with middleware but without routes.  In the second one a controller 4 names the
  routeless controller 3 as its parent, and a controller 5 is registered after it under
  controller 1.  In the third the routeless controller 3 is itself declared a child of
  controller 1.
\<close>

definition example_ops :: "op list" where
  "example_ops =
     [AddController 1 ''/a'' None, AddControllerMiddleware 1 [30], AddRoute 1 ''get'' ''/x'' 10,
      AddRouteMiddleware 10 [41],
      AddController 2 ''/b'' None, AddRoute 2 ''get'' ''/y'' 11, AddRouteMiddleware 11 [40],
      AddParent 2 1,
      AddController 3 ''/c'' None, AddControllerMiddleware 3 [50]]"

definition orphan_ops :: "op list" where
  "orphan_ops = example_ops @
     [AddController 4 ''/d'' None, AddRoute 4 ''get'' ''/z'' 12, AddParent 4 3,
      AddController 5 ''/e'' None, AddRoute 5 ''get'' ''/v'' 13, AddParent 5 1]"

definition unrouted_child_ops :: "op list" where
  "unrouted_child_ops = example_ops @ [AddParent 3 1]"

text \<open>
  In the fourth a route of controller 3 is registered under the method name
  \<open>constructor\<close>: the registration throws and leaves controller 3 with an empty route
  spec.
\<close>

definition empty_spec_ops :: "op list" where
  "empty_spec_ops = orphan_ops @ [AddRoute 3 ''constructor'' ''/q'' 14]"

section \<open>Association lists as maps\<close>

lemma map_get_map_of: "map_get m k = map_of m k"
  by (induction m) auto

lemma map_get_set_same [simp]: "map_get (map_set m k v) k = Some v"
  by (induction m) auto

lemma map_get_set_other [simp]: "k' \<noteq> k \<Longrightarrow> map_get (map_set m k v) k' = map_get m k'"
  by (induction m) auto

lemma map_set_twice [simp]: "map_set (map_set m k v) k v' = map_set m k v'"
  by (induction m) auto

lemma map_set_not_Nil [simp]: "map_set m k v \<noteq> []"
  by (cases m) (auto split: if_splits)

lemma keys_map_set [simp]: "fst ` set (map_set m k v) = insert k (fst ` set m)"
proof (induction m)
  case Nil
  then show ?case by simp
next
  case (Cons a m)
  obtain k' v' where a: "a = (k', v')" by (cases a)
  show ?case
  proof (cases "k' = k")
    case True
    then show ?thesis by (simp add: a)
  next
    case False
    then show ?thesis by (simp add: a Cons.IH insert_commute)
  qed
qed

lemma distinct_map_set: "distinct (map fst m) \<Longrightarrow> distinct (map fst (map_set m k v))"
proof (induction m)
  case Nil
  then show ?case by simp
next
  case (Cons a m)
  obtain k' v' where a: "a = (k', v')" by (cases a)
  from Cons have "k' \<notin> fst ` set m" and "distinct (map fst (map_set m k v))"
    by (auto simp: a)
  then show ?case
    using Cons.prems by (auto simp: a)
qed

lemma map_has_iff: "map_has m k \<longleftrightarrow> k \<in> fst ` set m"
  by (simp add: map_has_def map_get_map_of map_of_eq_None_iff)

lemma map_get_mem: "map_get m k = Some v \<Longrightarrow> (k, v) \<in> set m"
  by (simp add: map_get_map_of map_of_SomeD)

lemma map_get_distinct: "distinct (map fst m) \<Longrightarrow> (k, v) \<in> set m \<Longrightarrow> map_get m k = Some v"
  by (simp add: map_get_map_of)

lemma map_set_mem: "(k', v') \<in> set (map_set m k v) \<Longrightarrow> (k', v') = (k, v) \<or> (k', v') \<in> set m"
  by (induction m) (auto split: if_splits)

lemma map_set_same: "map_get m k = Some v \<Longrightarrow> map_set m k v = m"
  by (induction m) (auto split: if_splits)

lemma map_get_append_new:
  "map_get (m @ [(k, v)]) k' = (case map_get m k' of Some x \<Rightarrow> Some x
     | None \<Rightarrow> if k = k' then Some v else None)"
  by (induction m) auto

lemma map_set_append_new:
  "k \<notin> fst ` set m \<Longrightarrow> map_set (m @ [(k, v)]) k v' = m @ [(k, v')]"
  by (induction m) auto

lemma set_insert_index [simp]: "set (insert_index i k v m) = insert (k, v) (set m)"
  by (induction m) (auto split: option.splits if_splits)

lemma map_get_insert_index_other:
  "k' \<noteq> k \<Longrightarrow> map_get (insert_index i k v m) k' = map_get m k'"
  by (induction m) (auto split: option.splits)

lemma map_get_insert_index_same:
  "k \<notin> fst ` set m \<Longrightarrow> map_get (insert_index i k v m) k = Some v"
  by (induction m) (auto split: option.splits)

lemma map_set_insert_index:
  "k \<notin> fst ` set m \<Longrightarrow> map_set (insert_index i k v m) k v' = insert_index i k v' m"
  by (induction m) (auto split: option.splits)

lemma distinct_insert_index:
  "distinct (map fst m) \<Longrightarrow> k \<notin> fst ` set m \<Longrightarrow> distinct (map fst (insert_index i k v m))"
  by (induction m) (auto split: option.splits)

lemma map_get_obj_set_same [simp]: "map_get (obj_set m k v) k = Some v"
proof (cases "map_has m k")
  case True
  then show ?thesis by (simp add: obj_set_def)
next
  case False
  then have "k \<notin> fst ` set m"
    by (simp add: map_has_iff)
  moreover from False have "map_get m k = None"
    by (simp add: map_has_def)
  ultimately show ?thesis
    using False
    by (simp add: obj_set_def map_get_insert_index_same map_get_append_new
        split: option.splits)
qed

lemma map_get_obj_set_other [simp]: "k' \<noteq> k \<Longrightarrow> map_get (obj_set m k v) k' = map_get m k'"
  by (auto simp: obj_set_def map_get_insert_index_other map_get_append_new
      split: option.splits)

lemma obj_set_present: "map_get m k = Some x \<Longrightarrow> obj_set m k v = map_set m k v"
  by (simp add: obj_set_def map_has_def)

lemma obj_set_twice [simp]: "obj_set (obj_set m k v) k v' = obj_set m k v'"
proof (cases "map_has m k")
  case True
  then have "map_has (map_set m k v) k"
    by (simp add: map_has_def)
  with True show ?thesis
    by (simp add: obj_set_def)
next
  case False
  then have absent: "k \<notin> fst ` set m"
    by (simp add: map_has_iff)
  have "obj_set (obj_set m k v) k v' = map_set (obj_set m k v) k v'"
    by (rule obj_set_present [of _ _ v]) simp
  also have "\<dots> = obj_set m k v'"
    using False absent
    by (simp add: obj_set_def map_set_insert_index map_set_append_new split: option.splits)
  finally show ?thesis .
qed

lemma obj_set_not_Nil [simp]: "obj_set m k v \<noteq> []"
proof
  assume "obj_set m k v = []"
  then have "map_get (obj_set m k v) k = None"
    by simp
  then show False by simp
qed

lemma set_obj_set_new: "\<not> map_has m k \<Longrightarrow> set (obj_set m k v) = insert (k, v) (set m)"
  by (auto simp: obj_set_def split: option.splits)

lemma distinct_obj_set: "distinct (map fst m) \<Longrightarrow> distinct (map fst (obj_set m k v))"
  by (auto simp: obj_set_def distinct_map_set distinct_insert_index map_has_iff
      split: option.splits)

lemma emit_fields [simp]:
  "routeMap (emit e w) = routeMap w"
  "controllerMap (emit e w) = controllerMap w"
  "controllerMiddlewareMap (emit e w) = controllerMiddlewareMap w"
  "routeMiddlewareMap (emit e w) = routeMiddlewareMap w"
  "routerMap (emit e w) = routerMap w"
  "parentMap (emit e w) = parentMap w"
  "created (emit e w) = created w"
  "trace (emit e w) = trace w @ [e]"
  by (simp_all add: emit_def)

section \<open>The calls made by each step\<close>

lemma emits_Nil [simp]: "emits [] w = w"
  by (simp add: emits_def)

lemma emit_emits: "emit e w = emits [e] w"
  by (simp add: emit_def emits_def)

lemma emits_emits [simp]: "emits es' (emits es w) = emits (es @ es') w"
  by (simp add: emits_def)

lemma emits_fields [simp]:
  "routeMap (emits es w) = routeMap w"
  "controllerMap (emits es w) = controllerMap w"
  "controllerMiddlewareMap (emits es w) = controllerMiddlewareMap w"
  "routeMiddlewareMap (emits es w) = routeMiddlewareMap w"
  "routerMap (emits es w) = routerMap w"
  "parentMap (emits es w) = parentMap w"
  "created (emits es w) = created w"
  "trace (emits es w) = trace w @ es"
  by (simp_all add: emits_def)

lemma controller_middleware_events_emits [simp]:
  "controller_middleware_events (emits es w) = controller_middleware_events w"
  by (simp add: fun_eq_iff controller_middleware_events_def)

lemma route_middleware_events_emits [simp]:
  "route_middleware_events (emits es w) = route_middleware_events w"
  by (simp add: fun_eq_iff route_middleware_events_def)

lemma handler_events_emits [simp]: "handler_events (emits es w) = handler_events w"
  by (simp add: fun_eq_iff handler_events_def)

lemma method_events_emits [simp]: "method_events (emits es w) = method_events w"
  by (simp add: fun_eq_iff method_events_def)

lemma processControllerMiddleware_emits:
  "processControllerMiddleware rtr c w = emits (controller_middleware_events w rtr c) w"
  by (simp add: processControllerMiddleware_def controller_middleware_events_def emit_emits
      split: option.splits)

lemma processHttpMethodSpec_emits:
  "processHttpMethodSpec rtr p h m w = emits (handler_events w rtr m (p, h)) w"
  by (simp add: processHttpMethodSpec_def processRouteMiddleware_def handler_events_def
      route_middleware_events_def emit_emits split: option.splits)

lemma fold_handlers_emits:
  "fold (\<lambda>(p, h). processHttpMethodSpec rtr p h m) spec w
     = emits (concat (map (handler_events w rtr m) spec)) w"
proof (induction spec arbitrary: w)
  case Nil
  then show ?case by simp
next
  case (Cons a spec)
  obtain p h where a: "a = (p, h)" by (cases a)
  have "fold (\<lambda>(p, h). processHttpMethodSpec rtr p h m) (a # spec) w
      = fold (\<lambda>(p, h). processHttpMethodSpec rtr p h m) spec (emits (handler_events w rtr m (p, h)) w)"
    by (simp add: a processHttpMethodSpec_emits)
  also have "\<dots> = emits (concat (map (handler_events w rtr m) (a # spec))) w"
    by (simp add: Cons.IH a)
  finally show ?case .
qed

lemma processRouteSpec_emits:
  "processRouteSpec rtr c m spec w = emits (method_events w rtr (m, spec)) w"
  by (simp add: processRouteSpec_def fold_handlers_emits method_events_def)

lemma fold_methods_emits:
  "fold (\<lambda>(m, spec). processRouteSpec rtr c m spec) rs w
     = emits (concat (map (method_events w rtr) rs)) w"
proof (induction rs arbitrary: w)
  case Nil
  then show ?case by simp
next
  case (Cons a rs)
  obtain m spec where a: "a = (m, spec)" by (cases a)
  have "fold (\<lambda>(m, spec). processRouteSpec rtr c m spec) (a # rs) w
      = fold (\<lambda>(m, spec). processRouteSpec rtr c m spec) rs (emits (method_events w rtr (m, spec)) w)"
    by (simp add: a processRouteSpec_emits)
  also have "\<dots> = emits (concat (map (method_events w rtr) (a # rs))) w"
    by (simp add: Cons.IH a)
  finally show ?case .
qed

lemma processController_skip:
  "map_get (routeMap w) c = None \<or> map_get (routeMap w) c = Some [] \<Longrightarrow>
     processController app c cspec w = w"
  by (auto simp: processController_def)

lemma processController_assembled:
  assumes "map_get (routeMap w) c = Some rs" and "rs \<noteq> []"
  shows "processController app c cspec w =
     w\<lparr>routerMap := map_set (routerMap w) c (Created (created w)),
       created := Suc (created w),
       trace := trace w @ controller_events w app c cspec rs\<rparr>"
  using assms
  by (simp add: processController_def createRouter_def processControllerMiddleware_emits
      fold_methods_emits emit_emits controller_events_def mount_events_def emits_def
      controller_middleware_events_def method_events_def handler_events_def
      route_middleware_events_def cong: map_cong)

lemma method_name_get [simp]: "\<not> inherited ''get''" "array_index ''get'' = None"
  by (simp_all add: inherited_def object_prototype_keys_def array_index_def is_digit_def)

lemma method_name_constructor [simp]: "inherited ''constructor''"
  by (simp add: inherited_def object_prototype_keys_def)

lemmas registration_defs = initial_def addController_def addControllerMiddleware_def
  addParent_def addRoute_def addRouteMiddleware_def reset_def obj_set_def

lemmas assembly_defs = applyRoutes_def pass1_def processController_def createRouter_def emit_def
  processControllerMiddleware_def processRouteSpec_def processHttpMethodSpec_def
  processRouteMiddleware_def processParents_def map_has_def

lemmas example_defs = example_ops_def orphan_ops_def unrouted_child_ops_def
  empty_spec_ops_def run_def

section \<open>What assembly leaves unchanged\<close>

lemma emits_same_tables [simp]: "same_tables (emits es w) w' = same_tables w w'"
  by (simp add: same_tables_def)

lemma processController_cases:
  obtains (skip) "\<not> has_routes w c" "processController app c cspec w = w"
  | (assembled) rs where "map_get (routeMap w) c = Some rs" "rs \<noteq> []" "has_routes w c"
      "processController app c cspec w =
         w\<lparr>routerMap := map_set (routerMap w) c (Created (created w)),
           created := Suc (created w),
           trace := trace w @ controller_events w app c cspec rs\<rparr>"
proof (cases "map_get (routeMap w) c")
  case None
  then show ?thesis
    using skip by (simp add: has_routes_def processController_skip)
next
  case (Some rs)
  show ?thesis
  proof (cases "rs = []")
    case True
    with Some show ?thesis
      using skip by (simp add: has_routes_def processController_skip)
  next
    case False
    with Some show ?thesis
      using assembled [of rs] by (simp add: has_routes_def processController_assembled)
  qed
qed

lemma processController_frame [simp]:
  "routeMap (processController app c cspec w) = routeMap w"
  "controllerMap (processController app c cspec w) = controllerMap w"
  "controllerMiddlewareMap (processController app c cspec w) = controllerMiddlewareMap w"
  "routeMiddlewareMap (processController app c cspec w) = routeMiddlewareMap w"
  "parentMap (processController app c cspec w) = parentMap w"
  by (rule processController_cases [where w = w and c = c and app = app and cspec = cspec]; simp)+

lemma has_routes_processController [simp]:
  "has_routes (processController app c cspec w) c' = has_routes w c'"
  by (simp add: has_routes_def)

lemma pass1_Nil [simp]: "pass1 app [] w = w"
  by (simp add: pass1_def)

lemma pass1_Cons [simp]:
  "pass1 app ((c, cspec) # entries) w = pass1 app entries (processController app c cspec w)"
  by (simp add: pass1_def)

lemma pass1_append: "pass1 app (xs @ ys) w = pass1 app ys (pass1 app xs w)"
  by (simp add: pass1_def)

lemma pass1_frame [simp]:
  "routeMap (pass1 app entries w) = routeMap w"
  "controllerMap (pass1 app entries w) = controllerMap w"
  "controllerMiddlewareMap (pass1 app entries w) = controllerMiddlewareMap w"
  "routeMiddlewareMap (pass1 app entries w) = routeMiddlewareMap w"
  "parentMap (pass1 app entries w) = parentMap w"
  by (induction entries arbitrary: w; simp add: split_paired_all)+

lemma has_routes_pass1 [simp]: "has_routes (pass1 app entries w) c = has_routes w c"
  by (simp add: has_routes_def)

lemma processController_trace: "\<exists>es. trace (processController app c cspec w) = trace w @ es"
  by (rule processController_cases [where w = w and c = c and app = app and cspec = cspec]) simp_all

lemma pass1_trace: "\<exists>es. trace (pass1 app entries w) = trace w @ es"
proof (induction entries arbitrary: w)
  case Nil
  then show ?case by simp
next
  case (Cons a entries)
  obtain c cspec where a: "a = (c, cspec)" by (cases a)
  obtain es where es: "trace (processController app c cspec w) = trace w @ es"
    using processController_trace by blast
  obtain es' where "trace (pass1 app entries (processController app c cspec w))
      = trace (processController app c cspec w) @ es'"
    using Cons.IH by blast
  with es show ?case by (simp add: a)
qed

section \<open>Parent wiring, step by step\<close>

lemma processParents_no_parent:
  "map_get (routerMap w) parent = None \<Longrightarrow>
     processParents child parent w = (Some (ParentControllerError child parent), w)"
  by (simp add: processParents_def)

lemma processParents_no_child:
  "map_get (routerMap w) parent = Some pr \<Longrightarrow> map_get (routerMap w) child = None \<Longrightarrow>
     processParents child parent w = (Some (UnregisteredControllerError child), w)"
  by (simp add: processParents_def)

lemma processParents_no_spec:
  "map_get (routerMap w) parent = Some pr \<Longrightarrow> map_get (routerMap w) child = Some cr \<Longrightarrow>
   map_get (controllerMap w) child = None \<Longrightarrow>
     processParents child parent w = (Some TypeError, emits (parent_middleware_events w parent cr) w)"
  by (simp add: processParents_def parent_middleware_events_def emit_emits split: option.splits)

lemma processParents_wired:
  "map_get (routerMap w) parent = Some pr \<Longrightarrow> map_get (routerMap w) child = Some cr \<Longrightarrow>
   map_get (controllerMap w) child = Some cs \<Longrightarrow>
     processParents child parent w =
       (None, emits (parent_middleware_events w parent cr @ [Call pr (Mount (root cs) cr)]) w)"
  by (simp add: processParents_def parent_middleware_events_def emit_emits split: option.splits)

lemma processParents_emits: "\<exists>es. snd (processParents child parent w) = emits es w"
proof (cases "map_get (routerMap w) parent")
  case None
  then have "snd (processParents child parent w) = emits [] w"
    by (simp add: processParents_no_parent)
  then show ?thesis by blast
next
  case (Some pr)
  note pr = this
  show ?thesis
  proof (cases "map_get (routerMap w) child")
    case None
    with pr have "snd (processParents child parent w) = emits [] w"
      by (simp add: processParents_no_child)
    then show ?thesis by blast
  next
    case (Some cr)
    with pr show ?thesis
      by (cases "map_get (controllerMap w) child")
        (auto simp: processParents_no_spec processParents_wired)
  qed
qed

lemma pass2_emits: "\<exists>es. snd (pass2 pairs w) = emits es w"
proof (induction pairs arbitrary: w)
  case Nil
  have "snd (pass2 [] w) = emits [] w" by simp
  then show ?case by blast
next
  case (Cons a pairs)
  obtain child parent where a: "a = (child, parent)" by (cases a)
  obtain es where es: "snd (processParents child parent w) = emits es w"
    using processParents_emits by blast
  show ?case
  proof (cases "fst (processParents child parent w)")
    case None
    then have "pass2 (a # pairs) w = pass2 pairs (emits es w)"
      using es by (cases "processParents child parent w") (simp add: a)
    moreover obtain es' where "snd (pass2 pairs (emits es w)) = emits es' (emits es w)"
      using Cons.IH by blast
    ultimately have "snd (pass2 (a # pairs) w) = emits (es @ es') w" by simp
    then show ?thesis by blast
  next
    case (Some e)
    then have "snd (pass2 (a # pairs) w) = emits es w"
      using es by (cases "processParents child parent w") (simp add: a)
    then show ?thesis by blast
  qed
qed

lemma pass2_frame [simp]:
  "routeMap (snd (pass2 pairs w)) = routeMap w"
  "controllerMap (snd (pass2 pairs w)) = controllerMap w"
  "controllerMiddlewareMap (snd (pass2 pairs w)) = controllerMiddlewareMap w"
  "routeMiddlewareMap (snd (pass2 pairs w)) = routeMiddlewareMap w"
  "routerMap (snd (pass2 pairs w)) = routerMap w"
  "parentMap (snd (pass2 pairs w)) = parentMap w"
  "created (snd (pass2 pairs w)) = created w"
  using pass2_emits [of pairs w] by auto

lemma pass2_stops:
  "fst (processParents child parent w) = Some e \<Longrightarrow>
     pass2 ((child, parent) # rest) w = processParents child parent w"
  by (cases "processParents child parent w") simp

lemma pass2_append_error:
  "pass2 pre w = (None, w2) \<Longrightarrow> fst (processParents child parent w2) = Some e \<Longrightarrow>
     pass2 (pre @ (child, parent) # rest) w = processParents child parent w2"
proof (induction pre arbitrary: w)
  case Nil
  then have "w2 = w" by simp
  with Nil show ?case by (simp add: pass2_stops del: pass2.simps)
next
  case (Cons a pre)
  obtain c p where a: "a = (c, p)" by (cases a)
  obtain r w' where step: "processParents c p w = (r, w')" by (cases "processParents c p w")
  show ?case
  proof (cases r)
    case None
    with Cons.prems step a have "pass2 pre w' = (None, w2)" by simp
    then have "pass2 (pre @ (child, parent) # rest) w' = processParents child parent w2"
      using Cons.IH Cons.prems(2) by blast
    with None step a show ?thesis by simp
  next
    case (Some e')
    with Cons.prems step a show ?thesis by simp
  qed
qed

lemma pass2_append_ok:
  "pass2 pre w = (None, w2) \<Longrightarrow> pass2 (pre @ rest) w = pass2 rest w2"
proof (induction pre arbitrary: w)
  case Nil
  then show ?case by simp
next
  case (Cons a pre)
  obtain c p where a: "a = (c, p)" by (cases a)
  obtain r w' where step: "processParents c p w = (r, w')" by (cases "processParents c p w")
  show ?case
  proof (cases r)
    case None
    with Cons.prems step a have "pass2 pre w' = (None, w2)" by simp
    then have "pass2 (pre @ rest) w' = pass2 rest w2"
      using Cons.IH by blast
    with None step a show ?thesis by simp
  next
    case (Some e')
    with Cons.prems step a show ?thesis by simp
  qed
qed

section \<open>Invariants of reachable worlds\<close>

lemma unique_keys_Nil [simp]: "unique_keys []"
  by (simp add: unique_keys_def)

lemma unique_keys_map_set: "unique_keys m \<Longrightarrow> unique_keys (map_set m k v)"
  by (simp add: unique_keys_def distinct_map_set)

lemma list_all_map_set:
  "list_all P m \<Longrightarrow> P (k, v) \<Longrightarrow> list_all P (map_set m k v)"
  by (induction m) auto

lemma unique_keys_obj_set: "unique_keys m \<Longrightarrow> unique_keys (obj_set m k v)"
  by (simp add: unique_keys_def distinct_obj_set)

lemma list_all_obj_set:
  "list_all P m \<Longrightarrow> P (k, v) \<Longrightarrow> list_all P (obj_set m k v)"
proof (cases "map_has m k")
  case True
  assume "list_all P m" and "P (k, v)"
  with True show ?thesis
    by (simp add: obj_set_def list_all_map_set)
next
  case False
  assume "list_all P m" and "P (k, v)"
  with set_obj_set_new [OF False, of v] show ?thesis
    by (simp add: list_all_iff)
qed

lemma list_all_map_get: "list_all P m \<Longrightarrow> map_get m k = Some v \<Longrightarrow> P (k, v)"
  by (auto simp: list_all_iff dest: map_get_mem)

lemma routers_have_spec_iff:
  "routers_have_spec w \<longleftrightarrow> fst ` set (routerMap w) \<subseteq> fst ` set (controllerMap w)"
  by (force simp: routers_have_spec_def list_all_iff map_has_iff)

lemma routers_have_routes_iff:
  "routers_have_routes w \<longleftrightarrow> (\<forall>c \<in> fst ` set (routerMap w). has_routes w c)"
  by (force simp: routers_have_routes_def list_all_iff)

lemma processController_router_keys:
  "fst ` set (routerMap (processController app c cspec w))
     = fst ` set (routerMap w) \<union> (if has_routes w c then {c} else {})"
  by (rule processController_cases [where w = w and c = c and app = app and cspec = cspec]) auto

lemma pass1_router_keys:
  "fst ` set (routerMap (pass1 app entries w))
     = fst ` set (routerMap w) \<union> {c \<in> fst ` set entries. has_routes w c}"
proof (induction entries arbitrary: w)
  case Nil
  then show ?case by simp
next
  case (Cons a entries)
  obtain c cspec where a: "a = (c, cspec)" by (cases a)
  show ?case
    by (auto simp: a Cons.IH processController_router_keys split: if_splits)
qed

lemma processController_unique_routers:
  "unique_keys (routerMap w) \<Longrightarrow> unique_keys (routerMap (processController app c cspec w))"
  by (rule processController_cases [where w = w and c = c and app = app and cspec = cspec])
    (simp_all add: unique_keys_map_set)

lemma pass1_unique_routers:
  "unique_keys (routerMap w) \<Longrightarrow> unique_keys (routerMap (pass1 app entries w))"
proof (induction entries arbitrary: w)
  case Nil
  then show ?case by simp
next
  case (Cons a entries)
  obtain c cspec where a: "a = (c, cspec)" by (cases a)
  show ?case
    using Cons.prems by (simp add: a Cons.IH processController_unique_routers)
qed

lemma applyRoutes_frame [simp]:
  "routeMap (snd (applyRoutes app w)) = routeMap w"
  "controllerMap (snd (applyRoutes app w)) = controllerMap w"
  "controllerMiddlewareMap (snd (applyRoutes app w)) = controllerMiddlewareMap w"
  "routeMiddlewareMap (snd (applyRoutes app w)) = routeMiddlewareMap w"
  "parentMap (snd (applyRoutes app w)) = parentMap w"
  "routerMap (snd (applyRoutes app w)) = routerMap (pass1 app (controllerMap w) w)"
  by (simp_all add: applyRoutes_def Let_def)

lemma has_routes_applyRoutes [simp]: "has_routes (snd (applyRoutes app w)) c = has_routes w c"
  by (simp add: has_routes_def)

lemma addRoute_eq:
  "addRoute c m p h w =
     (let rs0 = (case map_get (routeMap w) c of None \<Rightarrow> [] | Some rs' \<Rightarrow> rs');
          ms0 = (case map_get rs0 m of None \<Rightarrow> [] | Some ms' \<Rightarrow> ms')
      in if map_get rs0 m = None \<and> inherited m
         then (Some TypeError, w\<lparr>routeMap := map_set (routeMap w) c rs0\<rparr>)
         else (None, w\<lparr>routeMap := map_set (routeMap w) c (obj_set rs0 m (map_set ms0 p h))\<rparr>))"
proof (cases "map_get (routeMap w) c")
  case None
  then show ?thesis
    by (simp add: addRoute_def Let_def)
next
  case (Some rs)
  then have same: "w\<lparr>routeMap := map_set (routeMap w) c rs\<rparr> = w"
    by (simp add: map_set_same)
  show ?thesis
  proof (cases "map_get rs m")
    case None
    with Some same show ?thesis
      by (simp add: addRoute_def Let_def)
  next
    case (Some ms)
    with \<open>map_get (routeMap w) c = Some rs\<close> show ?thesis
      by (simp add: addRoute_def Let_def obj_set_present)
  qed
qed

lemma addRoute_frame [simp]:
  "controllerMap (snd (addRoute c m p h w)) = controllerMap w"
  "controllerMiddlewareMap (snd (addRoute c m p h w)) = controllerMiddlewareMap w"
  "routeMiddlewareMap (snd (addRoute c m p h w)) = routeMiddlewareMap w"
  "routerMap (snd (addRoute c m p h w)) = routerMap w"
  "parentMap (snd (addRoute c m p h w)) = parentMap w"
  "created (snd (addRoute c m p h w)) = created w"
  "trace (snd (addRoute c m p h w)) = trace w"
  by (simp_all add: addRoute_eq Let_def)

lemma has_routes_addRoute:
  "has_routes w c' \<Longrightarrow> has_routes (snd (addRoute c m p h w)) c'"
  by (cases "c' = c") (auto simp: has_routes_def addRoute_eq Let_def split: option.splits)

lemma routers_have_spec_perform:
  "routers_have_spec w \<Longrightarrow> routers_have_spec (perform x w)"
proof (cases x)
  case (ApplyRoutes a)
  assume "routers_have_spec w"
  then show ?thesis
    by (auto simp: ApplyRoutes routers_have_spec_iff pass1_router_keys)
next
  case (AddRoute c m p h)
  assume "routers_have_spec w"
  then show ?thesis
    by (simp add: AddRoute routers_have_spec_iff)
qed (auto simp: routers_have_spec_iff addController_def addControllerMiddleware_def
    addParent_def addRouteMiddleware_def reset_def)

lemma routers_have_routes_perform:
  "routers_have_routes w \<Longrightarrow> routers_have_routes (perform x w)"
proof (cases x)
  case (ApplyRoutes a)
  assume "routers_have_routes w"
  then show ?thesis
    by (auto simp: ApplyRoutes routers_have_routes_iff pass1_router_keys)
next
  case (AddRoute c m p h)
  assume "routers_have_routes w"
  then show ?thesis
    by (simp add: AddRoute routers_have_routes_iff has_routes_addRoute)
qed (auto simp: routers_have_routes_iff has_routes_def addController_def
    addControllerMiddleware_def addParent_def addRouteMiddleware_def reset_def)

lemma well_keyed_addRoute:
  assumes "well_keyed w"
  shows "well_keyed (snd (addRoute c m p h w))"
proof -
  define rs where "rs = (case map_get (routeMap w) c of None \<Rightarrow> [] | Some rs' \<Rightarrow> rs')"
  define ms where "ms = (case map_get rs m of None \<Rightarrow> [] | Some ms' \<Rightarrow> ms')"
  let ?P = "\<lambda>(c, rs). unique_keys rs \<and> list_all (\<lambda>(m, ms). unique_keys ms) rs"
  have all: "list_all ?P (routeMap w)"
    using assms by (simp add: well_keyed_def)
  have rs: "unique_keys rs \<and> list_all (\<lambda>(m, ms). unique_keys ms) rs"
  proof (cases "map_get (routeMap w) c")
    case None
    then show ?thesis by (simp add: rs_def)
  next
    case (Some rs')
    with list_all_map_get [OF all Some] show ?thesis by (simp add: rs_def)
  qed
  have ms: "unique_keys ms"
  proof (cases "map_get rs m")
    case None
    then show ?thesis by (simp add: ms_def)
  next
    case (Some ms')
    with list_all_map_get [of "\<lambda>(m, ms). unique_keys ms" rs m ms'] rs show ?thesis
      by (simp add: ms_def)
  qed
  have kept: "?P (c, rs)"
    using rs by simp
  have set: "?P (c, obj_set rs m (map_set ms p h))"
    using rs ms by (simp add: unique_keys_map_set unique_keys_obj_set list_all_obj_set)
  have "list_all ?P (map_set (routeMap w) c rs)"
    using all kept by (rule list_all_map_set)
  moreover have "list_all ?P (map_set (routeMap w) c (obj_set rs m (map_set ms p h)))"
    using all set by (rule list_all_map_set)
  moreover have "snd (addRoute c m p h w) = w\<lparr>routeMap := map_set (routeMap w) c rs\<rparr>
      \<or> snd (addRoute c m p h w)
        = w\<lparr>routeMap := map_set (routeMap w) c (obj_set rs m (map_set ms p h))\<rparr>"
    by (simp add: addRoute_eq rs_def ms_def Let_def)
  ultimately show ?thesis
    using assms by (auto simp: well_keyed_def unique_keys_map_set)
qed

lemma well_keyed_perform: "well_keyed w \<Longrightarrow> well_keyed (perform x w)"
proof (cases x)
  case (AddRoute c m p h)
  assume "well_keyed w"
  then show ?thesis by (simp add: AddRoute well_keyed_addRoute)
next
  case (ApplyRoutes a)
  assume "well_keyed w"
  then show ?thesis
    by (simp add: ApplyRoutes well_keyed_def pass1_unique_routers)
qed (simp_all add: well_keyed_def addController_def addControllerMiddleware_def addParent_def
    addRouteMiddleware_def reset_def unique_keys_map_set)

lemma reachable_invariants:
  "reachable w \<Longrightarrow> routers_have_spec w \<and> routers_have_routes w \<and> well_keyed w"
proof (induction rule: reachable.induct)
  case reachable_initial
  show ?case
    by (simp add: routers_have_spec_def routers_have_routes_def well_keyed_def initial_def)
next
  case (reachable_perform w x)
  then show ?case
    by (simp add: routers_have_spec_perform routers_have_routes_perform well_keyed_perform)
qed

lemma reachable_run: "reachable w \<Longrightarrow> reachable (run ops w)"
  unfolding run_def by (induction ops arbitrary: w) (auto intro: reachable_perform)

section \<open>Reading the trace\<close>

lemma new_events_append [simp]: "trace w' = trace w @ es \<Longrightarrow> new_events w w' = es"
  by (simp add: new_events_def)

lemma new_events_emits [simp]: "new_events w (emits es w) = es"
  by (simp add: new_events_def)

lemma new_events_same [simp]: "new_events w w = []"
  by (simp add: new_events_def)

lemma calls_on_append [simp]: "calls_on r (xs @ ys) = calls_on r xs @ calls_on r ys"
  by (induction r xs rule: calls_on.induct) auto

lemma mounts_of_append [simp]: "mounts_of r (xs @ ys) = mounts_of r xs @ mounts_of r ys"
  by (induction r xs rule: mounts_of.induct) auto

lemma handlers_at_append [simp]:
  "handlers_at m p (xs @ ys) = handlers_at m p xs @ handlers_at m p ys"
  by (induction m p xs rule: handlers_at.induct) auto

lemma mounts_of_handler_events [simp]: "mounts_of r (handler_events w rtr m ph) = []"
  by (simp add: handler_events_def route_middleware_events_def split: option.splits)

lemma mounts_of_handlers [simp]:
  "mounts_of r (concat (map (handler_events w rtr m) xs)) = []"
  by (induction xs) simp_all

lemma mounts_of_method_events [simp]: "mounts_of r (method_events w rtr ms) = []"
  by (simp add: method_events_def)

lemma mounts_of_methods [simp]: "mounts_of r (concat (map (method_events w rtr) rs)) = []"
  by (induction rs) simp_all

lemma mounts_of_controller_middleware [simp]:
  "mounts_of r (controller_middleware_events w rtr c) = []"
  by (simp add: controller_middleware_events_def split: option.splits)

lemma calls_on_other_handler_events [simp]:
  "r \<noteq> rtr \<Longrightarrow> calls_on r (handler_events w rtr m ph) = []"
  by (simp add: handler_events_def route_middleware_events_def split: option.splits)

lemma calls_on_other_handlers [simp]:
  "r \<noteq> rtr \<Longrightarrow> calls_on r (concat (map (handler_events w rtr m) xs)) = []"
  by (induction xs) simp_all

lemma calls_on_other_methods [simp]:
  "r \<noteq> rtr \<Longrightarrow> calls_on r (concat (map (method_events w rtr) rs)) = []"
  by (induction rs) (simp_all add: method_events_def)

lemma calls_on_other_controller_middleware [simp]:
  "r \<noteq> rtr \<Longrightarrow> calls_on r (controller_middleware_events w rtr c) = []"
  by (simp add: controller_middleware_events_def split: option.splits)

section \<open>Failing pairs\<close>

lemma processParents_routerMap [simp]:
  "routerMap (snd (processParents child parent w)) = routerMap w"
  using processParents_emits [of child parent w] by auto

lemma pass2_fails:
  "(child, parent) \<in> set pairs \<Longrightarrow>
   map_get (routerMap w) parent = None \<or> map_get (routerMap w) child = None \<Longrightarrow>
     fst (pass2 pairs w) \<noteq> None"
proof (induction pairs arbitrary: w)
  case Nil
  then show ?case by simp
next
  case (Cons a pairs)
  obtain c p where a: "a = (c, p)" by (cases a)
  obtain r w' where step: "processParents c p w = (r, w')" by (cases "processParents c p w")
  then have same: "routerMap w' = routerMap w"
    using processParents_routerMap [of c p w] by simp
  show ?case
  proof (cases r)
    case (Some e)
    with step a show ?thesis by simp
  next
    case None
    have "(c, p) \<noteq> (child, parent)"
    proof
      assume "(c, p) = (child, parent)"
      with Cons.prems(2) step None show False
        by (auto simp: processParents_def split: option.splits)
    qed
    with Cons.prems(1) a have "(child, parent) \<in> set pairs" by auto
    then have "fst (pass2 pairs w') \<noteq> None"
      using Cons.IH Cons.prems(2) same by simp
    with None step a show ?thesis by simp
  qed
qed

lemma processParents_no_TypeError:
  "routers_have_spec w \<Longrightarrow> fst (processParents child parent w) \<noteq> Some TypeError"
proof -
  assume inv: "routers_have_spec w"
  have "map_get (controllerMap w) child \<noteq> None" if "map_get (routerMap w) child = Some cr" for cr
  proof -
    from that have "child \<in> fst ` set (routerMap w)"
      by (metis map_has_def map_has_iff option.distinct(1))
    with inv have "child \<in> fst ` set (controllerMap w)"
      by (auto simp: routers_have_spec_iff)
    then show ?thesis
      using map_has_iff [of "controllerMap w" child] by (simp add: map_has_def)
  qed
  then show ?thesis
    by (auto simp: processParents_def Let_def split: option.splits)
qed

lemma routers_have_spec_emits [simp]: "routers_have_spec (emits es w) = routers_have_spec w"
  by (simp add: routers_have_spec_def)

lemma pass2_no_TypeError:
  "routers_have_spec w \<Longrightarrow> fst (pass2 pairs w) \<noteq> Some TypeError"
proof (induction pairs arbitrary: w)
  case Nil
  then show ?case by simp
next
  case (Cons a pairs)
  obtain c p where a: "a = (c, p)" by (cases a)
  obtain r w' where step: "processParents c p w = (r, w')" by (cases "processParents c p w")
  obtain es where "w' = emits es w"
    using processParents_emits [of c p w] step by auto
  with Cons.prems have inv': "routers_have_spec w'" by simp
  show ?case
  proof (cases r)
    case None
    with step a Cons.IH [OF inv'] show ?thesis by simp
  next
    case (Some e)
    with step processParents_no_TypeError [OF Cons.prems, of c p] have "e \<noteq> TypeError" by auto
    with Some step a show ?thesis by simp
  qed
qed

lemma routers_have_spec_pass1:
  "routers_have_spec w \<Longrightarrow> set entries \<subseteq> set (controllerMap w) \<Longrightarrow>
     routers_have_spec (pass1 app entries w)"
  by (auto simp: routers_have_spec_iff pass1_router_keys)

lemma routers_have_spec_pass2:
  "routers_have_spec w \<Longrightarrow> routers_have_spec (snd (pass2 pairs w))"
  using pass2_emits [of pairs w] by auto

lemma mounts_of_controller_events:
  "mounts_of (Created (created w)) (controller_events w app c cspec rs)
     = (if map_has (parentMap w) c then [] else [(app, root cspec)])"
  by (simp add: controller_events_def mount_events_def)

lemma calls_on_external_controller_events:
  "calls_on (External a) (controller_events w (External a) c cspec rs)
     = (if map_has (parentMap w) c then [] else [Mount (root cspec) (Created (created w))])"
  by (simp add: controller_events_def mount_events_def)

lemma pass2_trace: "trace (snd (pass2 pairs w)) = trace w @ new_events w (snd (pass2 pairs w))"
  using pass2_emits [of pairs w] by auto

lemma calls_on_handler_events [simp]:
  "calls_on rtr (handler_events w rtr m (p, h))
     = (case map_get (routeMiddlewareMap w) h of
          Some ms \<Rightarrow> if ms \<noteq> [] then [UsePath p ms] else []
        | None \<Rightarrow> []) @ [Verb m p h]"
  by (simp add: handler_events_def route_middleware_events_def split: option.splits)

lemma no_global_use_handlers:
  "list_all (\<lambda>x. \<not> is_global_use x) (calls_on r (concat (map (handler_events w rtr m) xs)))"
proof (induction xs)
  case Nil
  then show ?case by simp
next
  case (Cons a xs)
  have "list_all (\<lambda>x. \<not> is_global_use x) (calls_on r (handler_events w rtr m a))"
    by (simp add: handler_events_def route_middleware_events_def split: option.splits)
  with Cons show ?case by simp
qed

lemma no_global_use_methods:
  "list_all (\<lambda>x. \<not> is_global_use x) (calls_on r (concat (map (method_events w rtr) rs)))"
  by (induction rs) (simp_all add: method_events_def no_global_use_handlers)

lemma calls_on_own_controller_events:
  "calls_on (Created (created w)) (controller_events w (External a) c cspec rs)
     = (case map_get (controllerMiddlewareMap w) c of Some ms \<Rightarrow> [Use ms] | None \<Rightarrow> [])
       @ calls_on (Created (created w)) (concat (map (method_events w (Created (created w))) rs))"
  by (simp add: controller_events_def mount_events_def controller_middleware_events_def
      split: option.splits)

section \<open>The calls on a controller's own router\<close>

lemma calls_on_methods_split:
  assumes "(m, spec) \<in> set rs" and "(p, h) \<in> set spec"
  shows "\<exists>pre post.
      calls_on rtr (concat (map (method_events w rtr) rs))
        = pre @ (case map_get (routeMiddlewareMap w) h of
                   Some ms \<Rightarrow> if ms \<noteq> [] then [UsePath p ms] else []
                 | None \<Rightarrow> []) @ [Verb m p h] @ post
      \<and> list_all (\<lambda>x. \<not> is_global_use x) (pre @ post)"
proof -
  obtain rs1 rs2 where rs: "rs = rs1 @ (m, spec) # rs2"
    using assms(1) by (auto dest: split_list)
  obtain s1 s2 where spec: "spec = s1 @ (p, h) # s2"
    using assms(2) by (auto dest: split_list)
  let ?f = "method_events w rtr"
  let ?g = "handler_events w rtr m"
  let ?pre = "calls_on rtr (concat (map ?f rs1)) @ calls_on rtr (concat (map ?g s1))"
  let ?post = "calls_on rtr (concat (map ?g s2)) @ calls_on rtr (concat (map ?f rs2))"
  have "?f (m, spec) = concat (map ?g s1) @ ?g (p, h) @ concat (map ?g s2)"
    by (simp add: method_events_def spec)
  then have "calls_on rtr (concat (map ?f rs))
      = ?pre @ calls_on rtr (?g (p, h)) @ ?post"
    by (simp add: rs)
  moreover have "list_all (\<lambda>x. \<not> is_global_use x) (?pre @ ?post)"
    by (simp add: no_global_use_handlers no_global_use_methods)
  ultimately show ?thesis
    by (metis (no_types, lifting) append_assoc calls_on_handler_events)
qed

lemma handlers_at_handlers:
  "handlers_at m p (calls_on rtr (concat (map (handler_events w rtr m') ms)))
     = (if m' = m then map snd (filter (\<lambda>x. fst x = p) ms) else [])"
proof (induction ms)
  case Nil
  then show ?case by simp
next
  case (Cons a ms)
  obtain p' h' where a: "a = (p', h')" by (cases a)
  have "handlers_at m p (calls_on rtr (handler_events w rtr m' (p', h')))
      = (if m' = m \<and> p' = p then [h'] else [])"
    by (simp split: option.splits)
  with Cons.IH show ?case
    by (simp add: a del: calls_on_handler_events)
qed

lemma handlers_at_methods:
  "handlers_at m p (calls_on rtr (concat (map (method_events w rtr) rs)))
     = concat (map (\<lambda>x. map snd (filter (\<lambda>y. fst y = p) (snd x))) (filter (\<lambda>x. fst x = m) rs))"
proof (induction rs)
  case Nil
  then show ?case by simp
next
  case (Cons a rs)
  then show ?case
    by (simp add: method_events_def handlers_at_handlers)
qed

lemma unique_keys_filter:
  "unique_keys xs \<Longrightarrow> map_get xs k = Some v \<Longrightarrow> filter (\<lambda>x. fst x = k) xs = [(k, v)]"
proof (induction xs)
  case Nil
  then show ?case by simp
next
  case (Cons a xs)
  obtain k' v' where a: "a = (k', v')" by (cases a)
  show ?case
  proof (cases "k' = k")
    case True
    then have "k \<notin> fst ` set xs"
      using Cons.prems(1) by (simp add: a unique_keys_def)
    then have "filter (\<lambda>x. fst x = k) xs = []"
      by (auto simp: filter_empty_conv)
    with True Cons.prems(2) show ?thesis by (simp add: a)
  next
    case False
    with Cons show ?thesis by (simp add: a unique_keys_def)
  qed
qed

lemma handlers_at_unique:
  assumes "unique_keys rs" and "map_get rs m = Some ms"
    and "unique_keys ms" and "map_get ms p = Some h"
  shows "handlers_at m p (calls_on rtr (concat (map (method_events w rtr) rs))) = [h]"
  by (simp add: handlers_at_methods unique_keys_filter [OF assms(1,2)]
      unique_keys_filter [OF assms(3,4)])

lemma handlers_at_controller_events:
  "handlers_at m p (calls_on (Created (created w)) (controller_events w (External a) c cspec rs))
     = handlers_at m p
         (calls_on (Created (created w)) (concat (map (method_events w (Created (created w))) rs)))"
  by (simp add: calls_on_own_controller_events split: option.splits)

lemma addRoute_outcome: "fst (addRoute c m p h w) = fst (addRoute c m p h' w)"
  by (simp add: addRoute_eq Let_def)

lemma addRoute_twice:
  "addRoute c m p h2 (snd (addRoute c m p h1 w)) = addRoute c m p h2 w"
  by (simp add: addRoute_eq Let_def)

lemma addRoute_routeMap:
  "fst (addRoute c m p h w) = None \<Longrightarrow>
     \<exists>rs ms. map_get (routeMap (snd (addRoute c m p h w))) c = Some rs \<and> rs \<noteq> [] \<and>
       map_get rs m = Some ms \<and> map_get ms p = Some h"
  by (simp add: addRoute_eq Let_def split: if_splits)

section \<open>A later cycle repeats the first\<close>

lemma map_get_shift_routers:
  "map_get (shift_routers n m) k = map_option (shift_router n) (map_get m k)"
  by (induction m) (auto simp: shift_routers_def)

lemma map_set_shift_routers:
  "shift_routers n (map_set m k r) = map_set (shift_routers n m) k (shift_router n r)"
  by (induction m) (auto simp: shift_routers_def)

lemma shift_handler_events:
  "map (shift_event n) (handler_events w rtr m ph) = handler_events w (shift_router n rtr) m ph"
  by (simp add: handler_events_def route_middleware_events_def split: option.splits)

lemma shift_method_events:
  "map (shift_event n) (method_events w rtr ms) = method_events w (shift_router n rtr) ms"
  by (simp add: method_events_def map_concat shift_handler_events comp_def)

lemma shift_methods:
  "map (shift_event n) (concat (map (method_events w rtr) rs))
     = concat (map (method_events w (shift_router n rtr)) rs)"
  by (simp add: map_concat shift_method_events comp_def)

lemma handler_events_tables:
  "routeMiddlewareMap w = routeMiddlewareMap w0 \<Longrightarrow> handler_events w = handler_events w0"
  by (simp add: fun_eq_iff handler_events_def route_middleware_events_def)

lemma method_events_tables:
  "routeMiddlewareMap w = routeMiddlewareMap w0 \<Longrightarrow> method_events w = method_events w0"
  by (simp add: fun_eq_iff method_events_def handler_events_tables [of w w0])

lemma shift_controller_events:
  assumes "same_tables w0 w" and "created w = n + created w0"
  shows "map (shift_event n) (controller_events w0 (External a) c cspec rs)
       = controller_events w (External a) c cspec rs"
proof -
  have rm: "routeMiddlewareMap w = routeMiddlewareMap w0"
    and cm: "controllerMiddlewareMap w = controllerMiddlewareMap w0"
    and pm: "parentMap w = parentMap w0"
    using assms(1) by (simp_all add: same_tables_def)
  have "map (shift_event n) (controller_middleware_events w0 (Created (created w0)) c)
      = controller_middleware_events w (Created (created w)) c"
    by (simp add: controller_middleware_events_def cm assms(2) split: option.splits)
  moreover have "map (shift_event n) (mount_events w0 (External a) c cspec (Created (created w0)))
      = mount_events w (External a) c cspec (Created (created w))"
    by (simp add: mount_events_def pm assms(2))
  moreover have "map (shift_event n) (concat (map (method_events w0 (Created (created w0))) rs))
      = concat (map (method_events w (Created (created w))) rs)"
    using shift_methods [of n w0 "Created (created w0)" rs]
    by (simp add: assms(2) method_events_tables [OF rm])
  ultimately show ?thesis
    by (simp add: controller_events_def assms(2))
qed

lemma renumbered_processController:
  assumes "renumbered n t w0 w"
  shows "renumbered n t (processController (External a) c cspec w0)
     (processController (External a) c cspec w)"
proof -
  have tabs: "same_tables w0 w" and cr: "created w = n + created w0"
    and rt: "routerMap w = shift_routers n (routerMap w0)"
    and tr: "trace w = t @ map (shift_event n) (trace w0)"
    using assms by (simp_all add: renumbered_def)
  have rmap: "routeMap w = routeMap w0"
    using tabs by (simp add: same_tables_def)
  show ?thesis
  proof (cases "map_get (routeMap w0) c")
    case None
    then show ?thesis
      using assms by (simp add: processController_skip rmap)
  next
    case (Some rs)
    show ?thesis
    proof (cases "rs = []")
      case True
      with Some show ?thesis
        using assms by (simp add: processController_skip rmap)
    next
      case False
      have s0: "map_get (routeMap w0) c = Some rs" and s: "map_get (routeMap w) c = Some rs"
        using Some rmap by simp_all
      show ?thesis
        using tabs
        by (simp add: processController_assembled [OF s0 False]
            processController_assembled [OF s False] renumbered_def same_tables_def
            cr rt tr map_set_shift_routers
            shift_controller_events [OF tabs cr, symmetric])
    qed
  qed
qed

lemma renumbered_pass1:
  "renumbered n t w0 w \<Longrightarrow>
     renumbered n t (pass1 (External a) entries w0) (pass1 (External a) entries w)"
proof (induction entries arbitrary: w0 w)
  case Nil
  then show ?case by simp
next
  case (Cons e entries)
  obtain c cspec where e: "e = (c, cspec)" by (cases e)
  show ?case
    using Cons.IH [OF renumbered_processController [OF Cons.prems]] by (simp add: e)
qed

lemma renumbered_emits:
  "renumbered n t w0 w \<Longrightarrow> renumbered n t (emits es w0) (emits (map (shift_event n) es) w)"
  by (simp add: renumbered_def same_tables_def)

lemma renumbered_processParents:
  assumes "renumbered n t w0 w"
  shows "fst (processParents child parent w) = fst (processParents child parent w0)
    \<and> renumbered n t (snd (processParents child parent w0)) (snd (processParents child parent w))"
proof -
  have tabs: "same_tables w0 w"
    and rt: "routerMap w = shift_routers n (routerMap w0)"
    using assms by (simp_all add: renumbered_def)
  have cmap: "controllerMap w = controllerMap w0"
    and cm: "controllerMiddlewareMap w = controllerMiddlewareMap w0"
    using tabs by (simp_all add: same_tables_def)
  show ?thesis
  proof (cases "map_get (routerMap w0) parent")
    case None
    then have "map_get (routerMap w) parent = None"
      by (simp add: rt map_get_shift_routers)
    with None assms show ?thesis
      by (simp add: processParents_no_parent)
  next
    case (Some pr)
    then have pr: "map_get (routerMap w) parent = Some (shift_router n pr)"
      by (simp add: rt map_get_shift_routers)
    show ?thesis
    proof (cases "map_get (routerMap w0) child")
      case None
      then have "map_get (routerMap w) child = None"
        by (simp add: rt map_get_shift_routers)
      with None Some pr assms show ?thesis
        by (simp add: processParents_no_child)
    next
      case (Some cr)
      note cr0 = this
      then have cr: "map_get (routerMap w) child = Some (shift_router n cr)"
        by (simp add: rt map_get_shift_routers)
      have mw: "parent_middleware_events w parent (shift_router n cr)
          = map (shift_event n) (parent_middleware_events w0 parent cr)"
        by (simp add: parent_middleware_events_def cm split: option.splits)
      show ?thesis
      proof (cases "map_get (controllerMap w0) child")
        case None
        then have "map_get (controllerMap w) child = None"
          by (simp add: cmap)
        with None show ?thesis
          using renumbered_emits [OF assms, of "parent_middleware_events w0 parent cr"]
          by (simp add: processParents_no_spec [OF \<open>map_get (routerMap w0) parent = Some pr\<close> cr0]
              processParents_no_spec [OF pr cr] mw)
      next
        case (Some cs)
        then have "map_get (controllerMap w) child = Some cs"
          by (simp add: cmap)
        with Some show ?thesis
          using renumbered_emits [OF assms,
              of "parent_middleware_events w0 parent cr @ [Call pr (Mount (root cs) cr)]"]
          by (simp add: processParents_wired [OF \<open>map_get (routerMap w0) parent = Some pr\<close> cr0]
              processParents_wired [OF pr cr] mw)
      qed
    qed
  qed
qed

lemma renumbered_pass2:
  "renumbered n t w0 w \<Longrightarrow>
     fst (pass2 pairs w) = fst (pass2 pairs w0)
     \<and> renumbered n t (snd (pass2 pairs w0)) (snd (pass2 pairs w))"
proof (induction pairs arbitrary: w0 w)
  case Nil
  then show ?case by simp
next
  case (Cons a pairs)
  obtain c p where a: "a = (c, p)" by (cases a)
  obtain r0 w0' where s0: "processParents c p w0 = (r0, w0')" by (cases "processParents c p w0")
  obtain r w' where s: "processParents c p w = (r, w')" by (cases "processParents c p w")
  from renumbered_processParents [OF Cons.prems, of c p] s0 s
  have r: "r = r0" and rel: "renumbered n t w0' w'" by simp_all
  show ?case
  proof (cases r0)
    case None
    with Cons.IH [OF rel] s0 s r a show ?thesis by simp
  next
    case (Some e)
    with rel s0 s r a show ?thesis by simp
  qed
qed

lemma renumbered_applyRoutes:
  assumes "renumbered n t w0 w"
  shows "fst (applyRoutes (External a) w) = fst (applyRoutes (External a) w0)
    \<and> renumbered n t (snd (applyRoutes (External a) w0)) (snd (applyRoutes (External a) w))"
proof -
  have "controllerMap w = controllerMap w0" and "parentMap w = parentMap w0"
    using assms by (simp_all add: renumbered_def same_tables_def)
  then show ?thesis
    using renumbered_pass2 [OF renumbered_pass1 [OF assms, of a "controllerMap w0"],
        of "parentMap w0"]
    by (simp add: applyRoutes_def Let_def)
qed

lemma renumbered_registration:
  "is_registration x \<Longrightarrow> renumbered n t w0 w \<Longrightarrow> renumbered n t (perform x w0) (perform x w)"
  by (cases x) (simp_all add: renumbered_def same_tables_def addController_def
      addControllerMiddleware_def addParent_def addRouteMiddleware_def addRoute_eq Let_def)

lemma renumbered_run:
  "list_all is_registration ops \<Longrightarrow> renumbered n t w0 w \<Longrightarrow>
     renumbered n t (run ops w0) (run ops w)"
  unfolding run_def
  by (induction ops arbitrary: w0 w) (simp_all add: renumbered_registration)

lemma renumbered_reset: "renumbered (created w) (trace w) initial (reset w)"
  by (simp add: renumbered_def same_tables_def shift_routers_def initial_def reset_def)

section \<open>The first pass as a whole\<close>

lemma new_events_trans:
  "trace w1 = trace w @ es \<Longrightarrow> trace w2 = trace w1 @ es' \<Longrightarrow>
     new_events w w2 = new_events w w1 @ new_events w1 w2"
  by (simp add: new_events_def)

lemma pass1_new_events_append:
  "new_events w (pass1 app (xs @ ys) w)
     = new_events w (pass1 app xs w) @ new_events (pass1 app xs w) (pass1 app ys (pass1 app xs w))"
proof -
  obtain es where es: "trace (pass1 app xs w) = trace w @ es"
    using pass1_trace by blast
  obtain es' where es': "trace (pass1 app ys (pass1 app xs w)) = trace (pass1 app xs w) @ es'"
    using pass1_trace by blast
  show ?thesis
    using new_events_trans [OF es es'] by (simp add: pass1_append)
qed

lemma pass1_new_events_Cons:
  "new_events w (pass1 app ((c, cspec) # ys) w)
     = new_events w (processController app c cspec w)
       @ new_events (processController app c cspec w)
           (pass1 app ys (processController app c cspec w))"
proof -
  obtain es where es: "trace (processController app c cspec w) = trace w @ es"
    using processController_trace by blast
  obtain es' where es': "trace (pass1 app ys (processController app c cspec w))
      = trace (processController app c cspec w) @ es'"
    using pass1_trace by blast
  show ?thesis
    using new_events_trans [OF es es'] by simp
qed

lemma created_processController: "created w \<le> created (processController app c cspec w)"
  by (rule processController_cases [where w = w and c = c and app = app and cspec = cspec])
    simp_all

lemma created_pass1: "created w \<le> created (pass1 app entries w)"
proof (induction entries arbitrary: w)
  case Nil
  then show ?case by simp
next
  case (Cons e entries)
  obtain c cspec where e: "e = (c, cspec)" by (cases e)
  have "created w \<le> created (processController app c cspec w)"
    by (rule created_processController)
  also have "\<dots> \<le> created (pass1 app entries (processController app c cspec w))"
    by (rule Cons.IH)
  finally show ?case by (simp add: e)
qed

lemma processController_other_router:
  assumes "k \<noteq> created w \<or> created (processController (External a) c cspec w) = created w"
  shows "calls_on (Created k) (new_events w (processController (External a) c cspec w)) = []"
    and "mounts_of (Created k) (new_events w (processController (External a) c cspec w)) = []"
proof -
  show "calls_on (Created k) (new_events w (processController (External a) c cspec w)) = []"
    using assms
    by (rule_tac processController_cases [where w = w and c = c and app = "External a"
          and cspec = cspec])
      (simp_all add: controller_events_def mount_events_def)
  show "mounts_of (Created k) (new_events w (processController (External a) c cspec w)) = []"
    using assms
    by (rule_tac processController_cases [where w = w and c = c and app = "External a"
          and cspec = cspec])
      (simp_all add: controller_events_def mount_events_def)
qed

lemma pass1_other_router:
  assumes "k < created w \<or> created (pass1 (External a) entries w) \<le> k"
  shows "calls_on (Created k) (new_events w (pass1 (External a) entries w)) = []
    \<and> mounts_of (Created k) (new_events w (pass1 (External a) entries w)) = []"
  using assms
proof (induction entries arbitrary: w)
  case Nil
  then show ?case by simp
next
  case (Cons e entries)
  obtain c cspec where e: "e = (c, cspec)" by (cases e)
  let ?w' = "processController (External a) c cspec w"
  have mono: "created w \<le> created ?w'" "created ?w' \<le> created (pass1 (External a) entries ?w')"
    by (rule created_processController, rule created_pass1)
  have range: "k < created w \<or> created (pass1 (External a) entries ?w') \<le> k"
    using Cons.prems by (simp add: e)
  have "k \<noteq> created w \<or> created ?w' = created w"
    using range mono by auto
  then have here: "calls_on (Created k) (new_events w ?w') = []"
    "mounts_of (Created k) (new_events w ?w') = []"
    by (rule processController_other_router)+
  have "k < created ?w' \<or> created (pass1 (External a) entries ?w') \<le> k"
    using range mono by auto
  then have "calls_on (Created k) (new_events ?w' (pass1 (External a) entries ?w')) = []
      \<and> mounts_of (Created k) (new_events ?w' (pass1 (External a) entries ?w')) = []"
    by (rule Cons.IH)
  with here show ?case
    by (simp add: e pass1_new_events_Cons del: pass1_Cons)
qed

lemma pass1_own_router:
  assumes "map_get (routeMap w0) c = Some rs" and "rs \<noteq> []"
  shows "calls_on (Created (created (pass1 (External a) pre w0)))
        (new_events w0 (pass1 (External a) (pre @ (c, cspec) # post) w0))
      = calls_on (Created (created (pass1 (External a) pre w0)))
          (controller_events (pass1 (External a) pre w0) (External a) c cspec rs)"
    and "mounts_of (Created (created (pass1 (External a) pre w0)))
        (new_events w0 (pass1 (External a) (pre @ (c, cspec) # post) w0))
      = mounts_of (Created (created (pass1 (External a) pre w0)))
          (controller_events (pass1 (External a) pre w0) (External a) c cspec rs)"
proof -
  let ?w = "pass1 (External a) pre w0"
  let ?w' = "processController (External a) c cspec ?w"
  let ?k = "created ?w"
  have rs: "map_get (routeMap ?w) c = Some rs"
    using assms(1) by simp
  note step = processController_assembled [OF rs assms(2), of "External a" cspec]
  have before: "calls_on (Created ?k) (new_events w0 ?w) = []
      \<and> mounts_of (Created ?k) (new_events w0 ?w) = []"
    by (rule pass1_other_router) simp
  have "?k < created ?w'"
    by (simp add: step)
  then have after: "calls_on (Created ?k) (new_events ?w' (pass1 (External a) post ?w')) = []
      \<and> mounts_of (Created ?k) (new_events ?w' (pass1 (External a) post ?w')) = []"
    by (intro pass1_other_router disjI1)
  have here: "new_events ?w ?w' = controller_events ?w (External a) c cspec rs"
    by (simp add: step)
  have split: "new_events w0 (pass1 (External a) (pre @ (c, cspec) # post) w0)
      = new_events w0 ?w @ new_events ?w ?w' @ new_events ?w' (pass1 (External a) post ?w')"
    by (simp add: pass1_new_events_append [of w0 _ pre] pass1_new_events_Cons del: pass1_Cons)
  show "calls_on (Created ?k) (new_events w0 (pass1 (External a) (pre @ (c, cspec) # post) w0))
      = calls_on (Created ?k) (controller_events ?w (External a) c cspec rs)"
    using before after by (simp add: split here)
  show "mounts_of (Created ?k) (new_events w0 (pass1 (External a) (pre @ (c, cspec) # post) w0))
      = mounts_of (Created ?k) (controller_events ?w (External a) c cspec rs)"
    using before after by (simp add: split here)
qed

section \<open>The second pass registers no handlers\<close>

lemma processParents_trace:
  "\<exists>es. trace (snd (processParents child parent w)) = trace w @ es"
  using processParents_emits [of child parent w] by auto

lemma handlers_at_parent_middleware [simp]:
  "handlers_at m p (calls_on r (parent_middleware_events w parent cr)) = []"
  by (simp add: parent_middleware_events_def split: option.splits)

lemma processParents_no_handlers:
  "handlers_at m p (calls_on r (new_events w (snd (processParents child parent w)))) = []"
proof (cases "map_get (routerMap w) parent")
  case None
  then show ?thesis by (simp add: processParents_no_parent)
next
  case (Some pr)
  note pr = this
  show ?thesis
  proof (cases "map_get (routerMap w) child")
    case None
    with pr show ?thesis by (simp add: processParents_no_child)
  next
    case (Some cr)
    with pr show ?thesis
      by (cases "map_get (controllerMap w) child")
        (simp_all add: processParents_no_spec processParents_wired)
  qed
qed

lemma pass2_no_handlers:
  "handlers_at m p (calls_on r (new_events w (snd (pass2 pairs w)))) = []"
proof (induction pairs arbitrary: w)
  case Nil
  then show ?case by simp
next
  case (Cons a pairs)
  obtain c pa where a: "a = (c, pa)" by (cases a)
  obtain e w' where step: "processParents c pa w = (e, w')" by (cases "processParents c pa w")
  have here: "handlers_at m p (calls_on r (new_events w w')) = []"
    using processParents_no_handlers [of m p r w c pa] step by simp
  show ?case
  proof (cases e)
    case (Some err)
    with step here show ?thesis by (simp add: a)
  next
    case None
    obtain es where es: "trace w' = trace w @ es"
      using processParents_trace [of c pa w] step by auto
    obtain es' where es': "trace (snd (pass2 pairs w')) = trace w' @ es'"
      using pass2_trace by blast
    have "new_events w (snd (pass2 pairs w'))
        = new_events w w' @ new_events w' (snd (pass2 pairs w'))"
      by (rule new_events_trans [OF es es'])
    with None step here Cons.IH [of w'] show ?thesis
      by (simp add: a)
  qed
qed

lemma applyRoutes_new_events:
  "new_events w (snd (applyRoutes app w))
     = new_events w (pass1 app (controllerMap w) w)
       @ new_events (pass1 app (controllerMap w) w)
           (snd (pass2 (parentMap w) (pass1 app (controllerMap w) w)))"
proof -
  let ?w1 = "pass1 app (controllerMap w) w"
  obtain es where es: "trace ?w1 = trace w @ es"
    using pass1_trace by blast
  obtain es' where es': "trace (snd (pass2 (parentMap w) ?w1)) = trace ?w1 @ es'"
    using pass2_trace by blast
  show ?thesis
    using new_events_trans [OF es es'] by (simp add: applyRoutes_def Let_def)
qed

text \<open>
  What a repeated registration does: each of the five operations, called a second time
  with the same arguments, gives the outcome and the world of the first call; every world
  the module can be brought into has at most one entry per key; \<open>addParent\<close> records the
  parent whatever the controller table holds, and \<open>applyRoutes\<close> throws when the parent was
  never registered as a controller.
\<close>

lemma registration_repeated:
  "addController c rt os (addController c rt os w) = addController c rt os w
   \<and> addControllerMiddleware c ms (addControllerMiddleware c ms w)
       = addControllerMiddleware c ms w
   \<and> addParent child parent (addParent child parent w) = addParent child parent w
   \<and> addRoute c m p h (snd (addRoute c m p h w)) = addRoute c m p h w
   \<and> addRouteMiddleware h ms (addRouteMiddleware h ms w) = addRouteMiddleware h ms w
   \<and> (reachable w \<longrightarrow> well_keyed w)
   \<and> map_get (parentMap (addParent child parent w)) child = Some parent
   \<and> (reachable w \<and> \<not> map_has (controllerMap w) parent \<longrightarrow>
        fst (applyRoutes app (addParent child parent w)) \<noteq> None)"
proof -
  have idem: "addController c rt os (addController c rt os w) = addController c rt os w
      \<and> addControllerMiddleware c ms (addControllerMiddleware c ms w)
          = addControllerMiddleware c ms w
      \<and> addParent child parent (addParent child parent w) = addParent child parent w
      \<and> addRouteMiddleware h ms (addRouteMiddleware h ms w) = addRouteMiddleware h ms w"
    by (simp add: addController_def addControllerMiddleware_def addParent_def
        addRouteMiddleware_def)
  have route: "addRoute c m p h (snd (addRoute c m p h w)) = addRoute c m p h w"
    by (rule addRoute_twice)
  have keyed: "reachable w \<longrightarrow> well_keyed w"
    by (simp add: reachable_invariants)
  have recorded: "map_get (parentMap (addParent child parent w)) child = Some parent"
    by (simp add: addParent_def)
  have "fst (applyRoutes app (addParent child parent w)) \<noteq> None"
    if r: "reachable w" and absent: "\<not> map_has (controllerMap w) parent"
  proof -
    let ?w' = "addParent child parent w"
    let ?w1 = "pass1 app (controllerMap ?w') ?w'"
    have "reachable (perform (AddParent child parent) w)"
      using r by (rule reachable_perform)
    then have "routers_have_spec ?w'"
      by (simp add: reachable_invariants)
    then have "fst ` set (routerMap ?w1) \<subseteq> fst ` set (controllerMap ?w')"
      by (auto simp: routers_have_spec_iff pass1_router_keys)
    moreover have "parent \<notin> fst ` set (controllerMap ?w')"
      using absent by (simp add: map_has_iff addParent_def)
    ultimately have "\<not> map_has (routerMap ?w1) parent"
      by (auto simp: map_has_iff)
    then have none: "map_get (routerMap ?w1) parent = None"
      by (simp add: map_has_def)
    have mem: "(child, parent) \<in> set (parentMap ?w')"
      using recorded by (rule map_get_mem)
    have "fst (pass2 (parentMap ?w') ?w1) \<noteq> None"
      using mem disjI1 [OF none] by (rule pass2_fails)
    then show ?thesis
      by (simp add: applyRoutes_def Let_def)
  qed
  with idem route keyed recorded show ?thesis by blast
qed

section \<open>The claims\<close>

text \<open>
  C1.  A controller that has a controller spec but no route spec entry, or an empty one, is
  skipped: processing it changes nothing (no router is created, no middleware attached,
  nothing mounted), no router is recorded for it when \<open>applyRoutes\<close> is over, and in the
  second pass a pair that names it, as child or as parent, throws before any call is made.
  Controller middleware and being named as a parent make no difference.  The world in which
  \<open>applyRoutes\<close> is called need only be one where every recorded router belongs to a
  controller with routes, as is every world the module can be brought into, and any world
  without recorded routers.
\<close>

theorem skipped_controller_not_assembled:
  assumes "routers_have_routes w"
    and "map_get (routeMap w) c = None \<or> map_get (routeMap w) c = Some []"
  shows "(\<forall>w'. routeMap w' = routeMap w \<longrightarrow> processController app c cspec w' = w')
    \<and> map_get (routerMap (snd (applyRoutes app w))) c = None
    \<and> (\<forall>w' x. routerMap w' = routerMap (snd (applyRoutes app w)) \<longrightarrow>
          processParents x c w' = (Some (ParentControllerError x c), w') \<and>
          processParents c x w' =
            (Some (if map_get (routerMap w') x = None then ParentControllerError c x
                   else UnregisteredControllerError c), w'))"
proof -
  have skip: "\<forall>w'. routeMap w' = routeMap w \<longrightarrow> processController app c cspec w' = w'"
    using assms(2) by (auto simp: processController_skip)
  have "\<not> has_routes w c"
    using assms(2) by (auto simp: has_routes_def)
  with assms(1) have "c \<notin> fst ` set (routerMap w)"
    by (auto simp: routers_have_routes_iff)
  with \<open>\<not> has_routes w c\<close> have "c \<notin> fst ` set (routerMap (pass1 app (controllerMap w) w))"
    by (simp add: pass1_router_keys)
  then have none: "map_get (routerMap (snd (applyRoutes app w))) c = None"
    using map_has_iff [of "routerMap (pass1 app (controllerMap w) w)" c]
    by (simp add: map_has_def)
  have "processParents x c w' = (Some (ParentControllerError x c), w') \<and>
        processParents c x w' =
          (Some (if map_get (routerMap w') x = None then ParentControllerError c x
                 else UnregisteredControllerError c), w')"
    if "routerMap w' = routerMap (snd (applyRoutes app w))" for w' x
  proof -
    from that none have c: "map_get (routerMap w') c = None" by simp
    then show ?thesis
      by (cases "map_get (routerMap w') x")
        (simp_all add: processParents_no_parent processParents_no_child)
  qed
  with skip none show ?thesis by blast
qed

theorem skipped_controller_not_assembled_witness:
  "routers_have_routes (run empty_spec_ops initial)
   \<and> map_get (routeMap (run empty_spec_ops initial)) 3 = Some []
   \<and> map_get (controllerMap (run empty_spec_ops initial)) 3 = Some \<lparr>opts = None, root = ''/c''\<rparr>
   \<and> map_get (controllerMiddlewareMap (run empty_spec_ops initial)) 3 = Some [50]
   \<and> map_get (parentMap (run empty_spec_ops initial)) 4 = Some 3
   \<and> processController (External 0) 3 \<lparr>opts = None, root = ''/c''\<rparr>
        (run empty_spec_ops initial)
       = run empty_spec_ops initial
   \<and> map_get (routerMap (snd (applyRoutes (External 0) (run empty_spec_ops initial)))) 3 = None
   \<and> processParents 4 3 (snd (applyRoutes (External 0) (run empty_spec_ops initial)))
       = (Some (ParentControllerError 4 3),
          snd (applyRoutes (External 0) (run empty_spec_ops initial)))
   \<and> routers_have_routes (run orphan_ops initial)
   \<and> map_get (routeMap (run orphan_ops initial)) 3 = None
   \<and> processController (External 0) 3 \<lparr>opts = None, root = ''/c''\<rparr> (run orphan_ops initial)
       = run orphan_ops initial
   \<and> map_get (routerMap (snd (applyRoutes (External 0) (run orphan_ops initial)))) 3 = None"
proof -
  let ?E = "run empty_spec_ops initial"
  let ?O = "run orphan_ops initial"
  let ?s3 = "\<lparr>opts = None, root = ''/c''\<rparr>"
  have "reachable ?E" and "reachable ?O"
    by (rule reachable_run [OF reachable_initial])+
  then have inv: "routers_have_routes ?E" "routers_have_routes ?O"
    by (simp_all add: reachable_invariants)
  have empty: "map_get (routeMap ?E) 3 = Some []"
    and absent: "map_get (routeMap ?O) 3 = None"
    and more: "map_get (controllerMap ?E) 3 = Some ?s3"
      "map_get (controllerMiddlewareMap ?E) 3 = Some [50]"
      "map_get (parentMap ?E) 4 = Some 3"
    by (simp_all add: example_defs registration_defs)
  note e = skipped_controller_not_assembled [OF inv(1) disjI2 [OF empty], of "External 0" ?s3]
  note o = skipped_controller_not_assembled [OF inv(2) disjI1 [OF absent], of "External 0" ?s3]
  from e have e1: "processController (External 0) 3 ?s3 ?E = ?E"
    and e2: "map_get (routerMap (snd (applyRoutes (External 0) ?E))) 3 = None"
    and e3: "processParents 4 3 (snd (applyRoutes (External 0) ?E))
       = (Some (ParentControllerError 4 3), snd (applyRoutes (External 0) ?E))"
    by blast+
  from o have o1: "processController (External 0) 3 ?s3 ?O = ?O"
    and o2: "map_get (routerMap (snd (applyRoutes (External 0) ?O))) 3 = None"
    by blast+
  from inv(1) empty more e1 e2 e3 inv(2) absent o1 o2 show ?thesis
    by - (intro conjI, assumption+)
qed

text \<open>
  C2.  Let \<open>(c, cspec)\<close> be an entry of the controller table and \<open>(m, p, h)\<close> a route of
  the route spec of \<open>c\<close>.  The calls that the first pass makes on the router created for
  \<open>c\<close> are, in order: the controller middleware with \<open>use(middleware)\<close> if the table has
  an entry, as the very first call; later the route middleware of \<open>h\<close>, if present and not
  empty, with \<open>use(p, middleware)\<close>; and directly after it the handler \<open>h\<close> for \<open>m\<close> and
  \<open>p\<close>.  No other call of the first pass on that router is a router-wide \<open>use\<close>.
\<close>

theorem middleware_registered_before_handler:
  assumes "controllerMap w0 = before @ (c, cspec) # after"
    and "map_get (routeMap w0) c = Some rs"
    and "(m, spec) \<in> set rs" and "(p, h) \<in> set spec"
  shows "map_get (routerMap (processController (External a) c cspec
            (pass1 (External a) before w0))) c
       = Some (Created (created (pass1 (External a) before w0)))
    \<and> (\<exists>pre post.
         calls_on (Created (created (pass1 (External a) before w0)))
           (new_events w0 (pass1 (External a) (controllerMap w0) w0))
           = (case map_get (controllerMiddlewareMap w0) c of Some ms \<Rightarrow> [Use ms] | None \<Rightarrow> [])
             @ pre
             @ (case map_get (routeMiddlewareMap w0) h of
                  Some ms \<Rightarrow> if ms \<noteq> [] then [UsePath p ms] else []
                | None \<Rightarrow> [])
             @ [Verb m p h] @ post
         \<and> list_all (\<lambda>x. \<not> is_global_use x) (pre @ post))"
proof -
  let ?w = "pass1 (External a) before w0"
  let ?r = "Created (created ?w)"
  have ne: "rs \<noteq> []"
    using assms(3) by auto
  have rs: "map_get (routeMap ?w) c = Some rs"
    using assms(2) by simp
  have recorded: "map_get (routerMap (processController (External a) c cspec ?w)) c = Some ?r"
    by (simp add: processController_assembled [OF rs ne])
  obtain pre post where
    split: "calls_on ?r (concat (map (method_events ?w ?r) rs))
      = pre @ (case map_get (routeMiddlewareMap ?w) h of
                 Some ms \<Rightarrow> if ms \<noteq> [] then [UsePath p ms] else []
               | None \<Rightarrow> []) @ [Verb m p h] @ post"
    and rest: "list_all (\<lambda>x. \<not> is_global_use x) (pre @ post)"
    using calls_on_methods_split [OF assms(3) assms(4)] by blast
  have "calls_on ?r (new_events w0 (pass1 (External a) (controllerMap w0) w0))
      = calls_on ?r (controller_events ?w (External a) c cspec rs)"
    unfolding assms(1) by (rule pass1_own_router(1) [OF assms(2) ne])
  also have "\<dots> = (case map_get (controllerMiddlewareMap ?w) c of
                       Some ms \<Rightarrow> [Use ms] | None \<Rightarrow> [])
      @ calls_on ?r (concat (map (method_events ?w ?r) rs))"
    by (rule calls_on_own_controller_events)
  finally have "calls_on ?r (new_events w0 (pass1 (External a) (controllerMap w0) w0))
      = (case map_get (controllerMiddlewareMap w0) c of Some ms \<Rightarrow> [Use ms] | None \<Rightarrow> [])
        @ pre
        @ (case map_get (routeMiddlewareMap w0) h of
             Some ms \<Rightarrow> if ms \<noteq> [] then [UsePath p ms] else []
           | None \<Rightarrow> [])
        @ [Verb m p h] @ post"
    by (simp add: split)
  with rest have "\<exists>pre post.
      calls_on ?r (new_events w0 (pass1 (External a) (controllerMap w0) w0))
        = (case map_get (controllerMiddlewareMap w0) c of Some ms \<Rightarrow> [Use ms] | None \<Rightarrow> [])
          @ pre
          @ (case map_get (routeMiddlewareMap w0) h of
               Some ms \<Rightarrow> if ms \<noteq> [] then [UsePath p ms] else []
             | None \<Rightarrow> [])
          @ [Verb m p h] @ post
      \<and> list_all (\<lambda>x. \<not> is_global_use x) (pre @ post)"
    by blast
  with recorded show ?thesis
    by (intro conjI)
qed

theorem middleware_registered_before_handler_witness:
  "controllerMap (run example_ops initial)
     = [] @ (1, \<lparr>opts = None, root = ''/a''\<rparr>)
         # [(2, \<lparr>opts = None, root = ''/b''\<rparr>), (3, \<lparr>opts = None, root = ''/c''\<rparr>)]
   \<and> map_get (routeMap (run example_ops initial)) 1 = Some [(''get'', [(''/x'', 10)])]
   \<and> map_get (controllerMiddlewareMap (run example_ops initial)) 1 = Some [30]
   \<and> map_get (routeMiddlewareMap (run example_ops initial)) 10 = Some [41]
   \<and> (\<exists>pre post.
        calls_on (Created 0) (new_events (run example_ops initial)
            (pass1 (External 0) (controllerMap (run example_ops initial))
              (run example_ops initial)))
          = [Use [30]] @ pre @ [UsePath ''/x'' [41]] @ [Verb ''get'' ''/x'' 10] @ post
        \<and> list_all (\<lambda>x. \<not> is_global_use x) (pre @ post))
   \<and> calls_on (Created 0) (new_events (run example_ops initial)
         (pass1 (External 0) (controllerMap (run example_ops initial))
           (run example_ops initial)))
       = [Use [30], UsePath ''/x'' [41], Verb ''get'' ''/x'' 10]"
proof -
  let ?W = "run example_ops initial"
  let ?s1 = "\<lparr>opts = None, root = ''/a''\<rparr>"
  let ?s2 = "\<lparr>opts = None, root = ''/b''\<rparr>"
  let ?s3 = "\<lparr>opts = None, root = ''/c''\<rparr>"
  have cmap: "controllerMap ?W = [] @ (1, ?s1) # [(2, ?s2), (3, ?s3)]"
    and rs: "map_get (routeMap ?W) 1 = Some [(''get'', [(''/x'', 10)])]"
    and cm: "map_get (controllerMiddlewareMap ?W) 1 = Some [30]"
    and rm: "map_get (routeMiddlewareMap ?W) 10 = Some [41]"
    and cr: "created (pass1 (External 0) [] ?W) = 0"
    by (simp_all add: example_defs registration_defs)
  have m: "(''get'', [(''/x'', 10::nat)]) \<in> set [(''get'', [(''/x'', 10)])]"
    and p: "(''/x'', 10::nat) \<in> set [(''/x'', 10)]"
    by simp_all
  from middleware_registered_before_handler [OF cmap rs m p, of 0] cm rm cr
  have ex: "\<exists>pre post.
        calls_on (Created 0) (new_events ?W (pass1 (External 0) (controllerMap ?W) ?W))
          = [Use [30]] @ pre @ [UsePath ''/x'' [41]] @ [Verb ''get'' ''/x'' 10] @ post
        \<and> list_all (\<lambda>x. \<not> is_global_use x) (pre @ post)"
    by simp
  have stack: "calls_on (Created 0) (new_events ?W (pass1 (External 0) (controllerMap ?W) ?W))
       = [Use [30], UsePath ''/x'' [41], Verb ''get'' ''/x'' 10]"
    by (simp add: example_defs registration_defs assembly_defs new_events_def)
  from cmap rs cm rm ex stack show ?thesis
    by - (intro conjI, assumption+)
qed

text \<open>
  C3.  Let \<open>(c, cspec)\<close> be an entry of the controller table, \<open>c\<close> with routes, and let
  the first pass have reached it.  Processing it records a new router for \<open>c\<close>.  If the
  parent table has no entry for \<open>c\<close> at that moment, the step mounts the router on the
  application router at the root path of \<open>cspec\<close>, and in the whole first pass this is the
  one mount of that router.  If the parent table has an entry, the application router
  receives no call in the step, and the whole first pass mounts the router nowhere.
\<close>

theorem root_router_mounted_on_app:
  assumes "controllerMap w0 = pre @ (c, cspec) # post"
    and "map_get (routeMap w0) c = Some rs" and "rs \<noteq> []"
  shows "map_get (routerMap (processController (External a) c cspec
            (pass1 (External a) pre w0))) c
       = Some (Created (created (pass1 (External a) pre w0)))
    \<and> calls_on (External a)
         (new_events (pass1 (External a) pre w0)
            (processController (External a) c cspec (pass1 (External a) pre w0)))
       = (if map_has (parentMap (pass1 (External a) pre w0)) c then []
          else [Mount (root cspec) (Created (created (pass1 (External a) pre w0)))])
    \<and> mounts_of (Created (created (pass1 (External a) pre w0)))
         (new_events w0 (pass1 (External a) (controllerMap w0) w0))
       = (if map_has (parentMap (pass1 (External a) pre w0)) c then []
          else [(External a, root cspec)])"
proof -
  let ?w = "pass1 (External a) pre w0"
  have rs: "map_get (routeMap ?w) c = Some rs"
    using assms(2) by simp
  note step = processController_assembled [OF rs assms(3), of "External a" cspec]
  have recorded: "map_get (routerMap (processController (External a) c cspec ?w)) c
      = Some (Created (created ?w))"
    by (simp add: step)
  have app: "calls_on (External a) (new_events ?w (processController (External a) c cspec ?w))
      = (if map_has (parentMap ?w) c then [] else [Mount (root cspec) (Created (created ?w))])"
    by (simp add: step calls_on_external_controller_events)
  have "mounts_of (Created (created ?w)) (new_events w0 (pass1 (External a) (controllerMap w0) w0))
      = mounts_of (Created (created ?w)) (controller_events ?w (External a) c cspec rs)"
    unfolding assms(1) by (rule pass1_own_router(2) [OF assms(2) assms(3)])
  then have whole: "mounts_of (Created (created ?w))
        (new_events w0 (pass1 (External a) (controllerMap w0) w0))
      = (if map_has (parentMap ?w) c then [] else [(External a, root cspec)])"
    by (simp only: mounts_of_controller_events)
  from recorded app whole show ?thesis
    by (intro conjI)
qed

theorem root_router_mounted_on_app_witness:
  "controllerMap (run example_ops initial)
     = [] @ (1, \<lparr>opts = None, root = ''/a''\<rparr>)
         # [(2, \<lparr>opts = None, root = ''/b''\<rparr>), (3, \<lparr>opts = None, root = ''/c''\<rparr>)]
   \<and> map_get (routeMap (run example_ops initial)) 1 = Some [(''get'', [(''/x'', 10)])]
   \<and> \<not> map_has (parentMap (run example_ops initial)) 1
   \<and> mounts_of (Created 0)
        (new_events (run example_ops initial)
          (pass1 (External 0) (controllerMap (run example_ops initial)) (run example_ops initial)))
      = [(External 0, ''/a'')]
   \<and> controllerMap (run example_ops initial)
     = [(1, \<lparr>opts = None, root = ''/a''\<rparr>)] @ (2, \<lparr>opts = None, root = ''/b''\<rparr>)
         # [(3, \<lparr>opts = None, root = ''/c''\<rparr>)]
   \<and> map_get (routeMap (run example_ops initial)) 2 = Some [(''get'', [(''/y'', 11)])]
   \<and> map_has (parentMap (run example_ops initial)) 2
   \<and> mounts_of (Created 1)
        (new_events (run example_ops initial)
          (pass1 (External 0) (controllerMap (run example_ops initial)) (run example_ops initial)))
      = []"
proof -
  let ?W = "run example_ops initial"
  let ?s1 = "\<lparr>opts = None, root = ''/a''\<rparr>"
  let ?s2 = "\<lparr>opts = None, root = ''/b''\<rparr>"
  let ?s3 = "\<lparr>opts = None, root = ''/c''\<rparr>"
  have cm1: "controllerMap ?W = [] @ (1, ?s1) # [(2, ?s2), (3, ?s3)]"
    and cm2: "controllerMap ?W = [(1, ?s1)] @ (2, ?s2) # [(3, ?s3)]"
    and r1: "map_get (routeMap ?W) 1 = Some [(''get'', [(''/x'', 10)])]"
    and r2: "map_get (routeMap ?W) 2 = Some [(''get'', [(''/y'', 11)])]"
    and p1: "\<not> map_has (parentMap ?W) 1"
    and p2: "map_has (parentMap ?W) 2"
    by (simp_all add: example_defs registration_defs map_has_def)
  have k1: "created (pass1 (External 0) [] ?W) = 0"
    and k2: "created (pass1 (External 0) [(1, ?s1)] ?W) = 1"
    by (simp_all add: example_defs registration_defs assembly_defs)
  have ne: "[(''get'', [(''/x'', 10::nat)])] \<noteq> []" "[(''get'', [(''/y'', 11::nat)])] \<noteq> []"
    by simp_all
  from root_router_mounted_on_app [OF cm1 r1 ne(1), of 0] p1 k1
  have m1: "mounts_of (Created 0) (new_events ?W (pass1 (External 0) (controllerMap ?W) ?W))
      = [(External 0, ''/a'')]"
    by simp
  from root_router_mounted_on_app [OF cm2 r2 ne(2), of 0] p2 k2
  have m2: "mounts_of (Created 1) (new_events ?W (pass1 (External 0) (controllerMap ?W) ?W))
      = []"
    by simp
  from cm1 r1 p1 m1 cm2 r2 p2 m2 show ?thesis
    by - (intro conjI, assumption+)
qed

text \<open>
  C4.  In the second pass the pairs of the parent table are wired in order, and the first
  pair for which a router is missing ends \<open>applyRoutes\<close>: with a parent-resolution error
  naming the child (and the parent) when the parent has no router, whether or not the child
  has one, and with an unregistered-controller error naming the child when only the child's
  router is missing.  The world is then the one left by the pairs before it: the remaining
  pairs are not wired.  Whenever some pair of the table lacks a router, \<open>applyRoutes\<close>
  throws.
\<close>

theorem missing_router_aborts_assembly:
  assumes "(child, parent) \<in> set (parentMap w)"
    and "map_get (routerMap (pass1 app (controllerMap w) w)) parent = None
       \<or> map_get (routerMap (pass1 app (controllerMap w) w)) child = None"
  shows "fst (applyRoutes app w) \<noteq> None
    \<and> (\<forall>pre rest w2.
          parentMap w = pre @ (child, parent) # rest \<and>
          pass2 pre (pass1 app (controllerMap w) w) = (None, w2) \<longrightarrow>
          applyRoutes app w =
            (Some (if map_get (routerMap (pass1 app (controllerMap w) w)) parent = None
                   then ParentControllerError child parent
                   else UnregisteredControllerError child), w2))"
proof -
  let ?w1 = "pass1 app (controllerMap w) w"
  have run: "applyRoutes app w = pass2 (parentMap w) ?w1"
    by (simp add: applyRoutes_def Let_def)
  have fails: "fst (applyRoutes app w) \<noteq> None"
    unfolding run using assms by (rule pass2_fails)
  have "applyRoutes app w =
      (Some (if map_get (routerMap ?w1) parent = None
             then ParentControllerError child parent
             else UnregisteredControllerError child), w2)"
    if split: "parentMap w = pre @ (child, parent) # rest" and pre: "pass2 pre ?w1 = (None, w2)"
    for pre rest w2
  proof -
    have same: "routerMap w2 = routerMap ?w1"
      using pass2_frame(5) [of pre ?w1] pre by simp
    have step: "processParents child parent w2 =
        (Some (if map_get (routerMap ?w1) parent = None
               then ParentControllerError child parent
               else UnregisteredControllerError child), w2)"
    proof (cases "map_get (routerMap ?w1) parent")
      case None
      then show ?thesis by (simp add: same processParents_no_parent)
    next
      case (Some pr)
      with assms(2) have "map_get (routerMap w2) child = None" by (simp add: same)
      with Some show ?thesis by (simp add: same processParents_no_child)
    qed
    then have "fst (processParents child parent w2) =
        Some (if map_get (routerMap ?w1) parent = None
              then ParentControllerError child parent
              else UnregisteredControllerError child)"
      by simp
    from pass2_append_error [OF pre this, of rest] step split run show ?thesis
      by simp
  qed
  with fails show ?thesis by blast
qed

theorem missing_router_aborts_assembly_witness:
  "(4, 3) \<in> set (parentMap (run orphan_ops initial))
   \<and> parentMap (run orphan_ops initial) = [(2, 1)] @ (4, 3) # [(5, 1)]
   \<and> map_get (routerMap (pass1 (External 0) (controllerMap (run orphan_ops initial))
         (run orphan_ops initial))) 3 = None
   \<and> applyRoutes (External 0) (run orphan_ops initial)
       = (Some (ParentControllerError 4 3),
          snd (pass2 [(2, 1)] (pass1 (External 0) (controllerMap (run orphan_ops initial))
            (run orphan_ops initial))))
   \<and> (3, 1) \<in> set (parentMap (run unrouted_child_ops initial))
   \<and> fst (applyRoutes (External 0) (run unrouted_child_ops initial))
       = Some (UnregisteredControllerError 3)"
proof -
  let ?W = "run orphan_ops initial"
  let ?W1 = "pass1 (External 0) (controllerMap ?W) ?W"
  let ?V = "run unrouted_child_ops initial"
  let ?V1 = "pass1 (External 0) (controllerMap ?V) ?V"
  have pm: "parentMap ?W = [(2, 1)] @ (4, 3) # [(5, 1)]"
    by (simp add: example_defs registration_defs)
  then have mem: "(4, 3) \<in> set (parentMap ?W)" by simp
  have none: "map_get (routerMap ?W1) 3 = None"
    by (simp add: example_defs registration_defs assembly_defs)
  have pre: "pass2 [(2, 1)] ?W1 = (None, snd (pass2 [(2, 1)] ?W1))"
    by (simp add: example_defs registration_defs assembly_defs)
  from missing_router_aborts_assembly [OF mem disjI1 [OF none], THEN conjunct2, rule_format,
      OF conjI [OF pm pre]] none
  have first: "applyRoutes (External 0) ?W
      = (Some (ParentControllerError 4 3), snd (pass2 [(2, 1)] ?W1))"
    by simp
  have pmV: "parentMap ?V = [(2, 1)] @ (3, 1) # []"
    by (simp add: example_defs registration_defs)
  then have memV: "(3, 1) \<in> set (parentMap ?V)" by simp
  have noneV: "map_get (routerMap ?V1) 3 = None" and someV: "map_get (routerMap ?V1) 1 \<noteq> None"
    by (simp_all add: example_defs registration_defs assembly_defs)
  have preV: "pass2 [(2, 1)] ?V1 = (None, snd (pass2 [(2, 1)] ?V1))"
    by (simp add: example_defs registration_defs assembly_defs)
  from missing_router_aborts_assembly [OF memV disjI2 [OF noneV], THEN conjunct2, rule_format,
      OF conjI [OF pmV preV]] someV
  have "applyRoutes (External 0) ?V
      = (Some (UnregisteredControllerError 3), snd (pass2 [(2, 1)] ?V1))"
    by simp
  then have second: "fst (applyRoutes (External 0) ?V) = Some (UnregisteredControllerError 3)"
    by simp
  from pm mem none first memV second show ?thesis by blast
qed

text \<open>
  C5.  When the second pass reaches a pair whose two routers are found, the parent's
  controller middleware, if present and not empty, is registered on the child's router with
  \<open>use(middleware)\<close>, and then the child's router is mounted on the parent's router at the
  root path of the child's controller spec.  Both calls come after every call of the first
  pass (and after the calls for the pairs wired before), so the parent's middleware stands
  behind whatever the child's router received in the first pass.
\<close>

theorem parent_middleware_appended_to_child:
  assumes "parentMap w = pre @ (child, parent) # rest"
    and "pass2 pre (pass1 app (controllerMap w) w) = (None, w2)"
    and "map_get (routerMap w2) parent = Some pr"
    and "map_get (routerMap w2) child = Some cr"
    and "map_get (controllerMap w) child = Some cs"
  shows "fst (processParents child parent w2) = None
    \<and> trace (snd (processParents child parent w2))
       = trace (pass1 app (controllerMap w) w)
         @ new_events (pass1 app (controllerMap w) w) w2
         @ (case map_get (controllerMiddlewareMap w) parent of
              Some ms \<Rightarrow> if ms \<noteq> [] then [Call cr (Use ms)] else []
            | None \<Rightarrow> [])
         @ [Call pr (Mount (root cs) cr)]
    \<and> applyRoutes app w = pass2 rest (snd (processParents child parent w2))"
proof -
  let ?w1 = "pass1 app (controllerMap w) w"
  have w2: "w2 = snd (pass2 pre ?w1)"
    using assms(2) by simp
  have tables: "controllerMap w2 = controllerMap w"
    "controllerMiddlewareMap w2 = controllerMiddlewareMap w"
    by (simp_all add: w2)
  have tr: "trace w2 = trace ?w1 @ new_events ?w1 w2"
    unfolding w2 by (rule pass2_trace)
  have spec: "map_get (controllerMap w2) child = Some cs"
    using assms(5) tables by simp
  have step: "processParents child parent w2 =
      (None, emits (parent_middleware_events w2 parent cr @ [Call pr (Mount (root cs) cr)]) w2)"
    by (rule processParents_wired [OF assms(3) assms(4) spec])
  have "applyRoutes app w = pass2 (pre @ (child, parent) # rest) ?w1"
    by (simp add: applyRoutes_def Let_def assms(1))
  also have "\<dots> = pass2 ((child, parent) # rest) w2"
    by (rule pass2_append_ok [OF assms(2)])
  also have "\<dots> = pass2 rest (snd (processParents child parent w2))"
    by (simp add: step)
  finally have cont: "applyRoutes app w = pass2 rest (snd (processParents child parent w2))" .
  have "trace (snd (processParents child parent w2))
      = trace w2
        @ (case map_get (controllerMiddlewareMap w) parent of
             Some ms \<Rightarrow> if ms \<noteq> [] then [Call cr (Use ms)] else []
           | None \<Rightarrow> [])
        @ [Call pr (Mount (root cs) cr)]"
    by (simp add: step parent_middleware_events_def tables)
  then have "trace (snd (processParents child parent w2))
      = (trace ?w1 @ new_events ?w1 w2)
        @ (case map_get (controllerMiddlewareMap w) parent of
             Some ms \<Rightarrow> if ms \<noteq> [] then [Call cr (Use ms)] else []
           | None \<Rightarrow> [])
        @ [Call pr (Mount (root cs) cr)]"
    by (subst tr [symmetric])
  moreover have "fst (processParents child parent w2) = None"
    by (simp add: step)
  ultimately show ?thesis
    using cont by (simp del: new_events_append)
qed

theorem parent_middleware_appended_to_child_witness:
  "parentMap (run example_ops initial) = [] @ (2, 1) # []
   \<and> map_get (routerMap (pass1 (External 0) (controllerMap (run example_ops initial))
        (run example_ops initial))) 1 = Some (Created 0)
   \<and> map_get (routerMap (pass1 (External 0) (controllerMap (run example_ops initial))
        (run example_ops initial))) 2 = Some (Created 1)
   \<and> map_get (controllerMiddlewareMap (run example_ops initial)) 1 = Some [30]
   \<and> trace (snd (processParents 2 1 (pass1 (External 0) (controllerMap (run example_ops initial))
        (run example_ops initial))))
      = trace (pass1 (External 0) (controllerMap (run example_ops initial))
          (run example_ops initial))
        @ [Call (Created 1) (Use [30]), Call (Created 0) (Mount ''/b'' (Created 1))]
   \<and> calls_on (Created 1) (trace (snd (applyRoutes (External 0) (run example_ops initial))))
      = [UsePath ''/y'' [40], Verb ''get'' ''/y'' 11, Use [30]]"
proof -
  let ?W = "run example_ops initial"
  let ?W1 = "pass1 (External 0) (controllerMap ?W) ?W"
  have pm: "parentMap ?W = [] @ (2, 1) # []"
    by (simp add: example_defs registration_defs)
  have pre: "pass2 [] ?W1 = (None, ?W1)"
    by simp
  have pr: "map_get (routerMap ?W1) 1 = Some (Created 0)"
    and cr: "map_get (routerMap ?W1) 2 = Some (Created 1)"
    and cs: "map_get (controllerMap ?W) 2 = Some \<lparr>opts = None, root = ''/b''\<rparr>"
    and mw: "map_get (controllerMiddlewareMap ?W) 1 = Some [30]"
    by (simp_all add: example_defs registration_defs assembly_defs)
  note wired = parent_middleware_appended_to_child [OF pm pre pr cr cs]
  from wired mw have tr: "trace (snd (processParents 2 1 ?W1))
      = trace ?W1 @ [Call (Created 1) (Use [30]), Call (Created 0) (Mount ''/b'' (Created 1))]"
    by simp
  from wired have "applyRoutes (External 0) ?W = (None, snd (processParents 2 1 ?W1))"
    by simp
  with tr have "calls_on (Created 1) (trace (snd (applyRoutes (External 0) ?W)))
      = calls_on (Created 1) (trace ?W1) @ [Use [30]]"
    by simp
  moreover have "calls_on (Created 1) (trace ?W1) = [UsePath ''/y'' [40], Verb ''get'' ''/y'' 11]"
    by (simp add: example_defs registration_defs assembly_defs)
  ultimately have stack: "calls_on (Created 1) (trace (snd (applyRoutes (External 0) ?W)))
      = [UsePath ''/y'' [40], Verb ''get'' ''/y'' 11, Use [30]]"
    by simp
  from pm pr cr mw tr stack show ?thesis
    by - (intro conjI, assumption+)
qed

text \<open>
  C6.  Registering a second handler for the same controller, method and path replaces the
  first: the outcome and the tables are exactly those that the second registration alone
  would have produced.  When the first registration returns normally (as it does for every
  HTTP method name), so does the second, and the route table then holds the second handler
  for that method and path; when the controller is then assembled, the whole of
  \<open>applyRoutes\<close> registers on its router, for that method and path, the second handler
  and no other.
\<close>

theorem later_route_replaces_earlier:
  "addRoute c m p h2 (snd (addRoute c m p h1 w)) = addRoute c m p h2 w
   \<and> (fst (addRoute c m p h1 w) = None \<longrightarrow>
        fst (addRoute c m p h2 (snd (addRoute c m p h1 w))) = None
        \<and> route_lookup (snd (addRoute c m p h2 (snd (addRoute c m p h1 w)))) c m p = Some h2
        \<and> (reachable w \<and> controllerMap w = before @ (c, cspec) # after \<longrightarrow>
             handlers_at m p
               (calls_on
                 (Created (created (pass1 (External a) before
                    (snd (addRoute c m p h2 (snd (addRoute c m p h1 w)))))))
                 (new_events (snd (addRoute c m p h2 (snd (addRoute c m p h1 w))))
                   (snd (applyRoutes (External a)
                     (snd (addRoute c m p h2 (snd (addRoute c m p h1 w))))))))
             = [h2]))
   \<and> (\<not> inherited m \<longrightarrow> fst (addRoute c m p h1 w) = None)"
proof -
  let ?w1 = "snd (addRoute c m p h1 w)"
  let ?w' = "snd (addRoute c m p h2 ?w1)"
  have twice: "addRoute c m p h2 ?w1 = addRoute c m p h2 w"
    by (rule addRoute_twice)
  have always: "\<not> inherited m \<longrightarrow> fst (addRoute c m p h1 w) = None"
    by (simp add: addRoute_eq Let_def)
  have "fst (addRoute c m p h2 ?w1) = None
      \<and> route_lookup ?w' c m p = Some h2
      \<and> (reachable w \<and> controllerMap w = before @ (c, cspec) # after \<longrightarrow>
           handlers_at m p
             (calls_on (Created (created (pass1 (External a) before ?w')))
               (new_events ?w' (snd (applyRoutes (External a) ?w')))) = [h2])"
    if ok1: "fst (addRoute c m p h1 w) = None"
  proof -
    have ok2: "fst (addRoute c m p h2 ?w1) = None"
      using ok1 addRoute_outcome [of c m p h2 w h1] by (simp add: twice)
    obtain rs ms where rs: "map_get (routeMap ?w') c = Some rs" and ne: "rs \<noteq> []"
      and ms: "map_get rs m = Some ms" and h: "map_get ms p = Some h2"
      using addRoute_routeMap [OF ok2] by blast
    have look: "route_lookup ?w' c m p = Some h2"
      by (simp add: route_lookup_def rs ms h)
    have "handlers_at m p
            (calls_on (Created (created (pass1 (External a) before ?w')))
              (new_events ?w' (snd (applyRoutes (External a) ?w')))) = [h2]"
      if r: "reachable w" and entry: "controllerMap w = before @ (c, cspec) # after"
    proof -
      let ?w = "pass1 (External a) before ?w'"
      let ?r = "Created (created ?w)"
      have "well_keyed ?w1"
        using r by (simp add: reachable_invariants well_keyed_addRoute)
      then have "well_keyed ?w'"
        by (rule well_keyed_addRoute)
      then have all: "list_all (\<lambda>(c, rs). unique_keys rs \<and> list_all (\<lambda>(m, ms). unique_keys ms) rs)
          (routeMap ?w')"
        by (simp add: well_keyed_def)
      from list_all_map_get [OF all rs]
      have urs: "unique_keys rs" and inner: "list_all (\<lambda>(m, ms). unique_keys ms) rs"
        by simp_all
      from list_all_map_get [OF inner ms] have ums: "unique_keys ms"
        by simp
      have entry': "controllerMap ?w' = before @ (c, cspec) # after"
        using entry by simp
      have "calls_on ?r (new_events ?w' (pass1 (External a) (controllerMap ?w') ?w'))
          = calls_on ?r (controller_events ?w (External a) c cspec rs)"
        unfolding entry' by (rule pass1_own_router(1) [OF rs ne])
      then have first: "handlers_at m p
          (calls_on ?r (new_events ?w' (pass1 (External a) (controllerMap ?w') ?w'))) = [h2]"
        using handlers_at_controller_events [of m p ?w a c cspec rs]
          handlers_at_unique [OF urs ms ums h, of ?r ?w]
        by simp
      have second: "handlers_at m p
          (calls_on ?r (new_events (pass1 (External a) (controllerMap ?w') ?w')
             (snd (pass2 (parentMap ?w') (pass1 (External a) (controllerMap ?w') ?w'))))) = []"
        by (rule pass2_no_handlers)
      show ?thesis
        by (simp only: applyRoutes_new_events [of ?w'] calls_on_append handlers_at_append
            first second append_Nil2)
    qed
    with ok2 look show ?thesis by blast
  qed
  with twice always show ?thesis by blast
qed

theorem later_route_replaces_earlier_witness:
  "controllerMap (run example_ops initial)
     = [] @ (1, \<lparr>opts = None, root = ''/a''\<rparr>)
         # [(2, \<lparr>opts = None, root = ''/b''\<rparr>), (3, \<lparr>opts = None, root = ''/c''\<rparr>)]
   \<and> fst (addRoute 1 ''get'' ''/x'' 20 (run example_ops initial)) = None
   \<and> route_lookup (snd (addRoute 1 ''get'' ''/x'' 21 (snd (addRoute 1 ''get'' ''/x'' 20
       (run example_ops initial))))) 1 ''get'' ''/x'' = Some 21
   \<and> handlers_at ''get'' ''/x''
        (calls_on (Created 0)
          (new_events (snd (addRoute 1 ''get'' ''/x'' 21 (snd (addRoute 1 ''get'' ''/x'' 20
               (run example_ops initial)))))
            (snd (applyRoutes (External 0)
              (snd (addRoute 1 ''get'' ''/x'' 21 (snd (addRoute 1 ''get'' ''/x'' 20
                (run example_ops initial)))))))))
      = [21]"
proof -
  let ?W = "run example_ops initial"
  let ?s1 = "\<lparr>opts = None, root = ''/a''\<rparr>"
  let ?s2 = "\<lparr>opts = None, root = ''/b''\<rparr>"
  let ?s3 = "\<lparr>opts = None, root = ''/c''\<rparr>"
  let ?W' = "snd (addRoute 1 ''get'' ''/x'' 21 (snd (addRoute 1 ''get'' ''/x'' 20 ?W)))"
  have r: "reachable ?W"
    by (rule reachable_run [OF reachable_initial])
  have cmap: "controllerMap ?W = [] @ (1, ?s1) # [(2, ?s2), (3, ?s3)]"
    by (simp add: example_defs registration_defs)
  have cr: "created (pass1 (External 0) [] ?W') = 0"
    by (simp add: example_defs registration_defs)
  note replaced = later_route_replaces_earlier [of 1 "''get''" "''/x''" 21 20 ?W
      "[]" ?s1 "[(2, ?s2), (3, ?s3)]" 0]
  have ok: "fst (addRoute 1 ''get'' ''/x'' 20 ?W) = None"
    by (rule replaced [THEN conjunct2, THEN conjunct2, rule_format]) simp
  note after = replaced [THEN conjunct2, THEN conjunct1, rule_format, OF ok]
  have look: "route_lookup ?W' 1 ''get'' ''/x'' = Some 21"
    by (rule after [THEN conjunct2, THEN conjunct1])
  have "handlers_at ''get'' ''/x''
        (calls_on (Created (created (pass1 (External 0) [] ?W')))
          (new_events ?W' (snd (applyRoutes (External 0) ?W')))) = [21]"
    by (rule after [THEN conjunct2, THEN conjunct2, rule_format, OF conjI [OF r cmap]])
  then have "handlers_at ''get'' ''/x''
        (calls_on (Created 0) (new_events ?W' (snd (applyRoutes (External 0) ?W')))) = [21]"
    by (simp only: cr)
  with cmap ok look show ?thesis
    by - (intro conjI, assumption+)
qed

text \<open>
  C7.  Controller-level middleware should be registered on the new router if and only if
  the controller middleware table holds a non-empty entry.  The code registers it whenever
  the entry is present: \<open>processControllerMiddleware\<close> does not test the length of the
  list, where \<open>processRouteMiddleware\<close> and \<open>processParents\<close> do.  For a controller
  with one route and an empty middleware entry, the new router receives \<open>use([])\<close> as
  the first call after its creation.
\<close>

theorem empty_controller_middleware_is_registered:
  "trace (snd (applyRoutes (External 0)
      (addControllerMiddleware 1 []
        (snd (addRoute 1 ''get'' ''/x'' 10 (addController 1 ''/a'' None initial))))))
   = [Create 0 None, Call (Created 0) (Use []), Call (Created 0) (Verb ''get'' ''/x'' 10),
      Call (External 0) (Mount ''/a'' (Created 0))]"
  by (simp add: registration_defs assembly_defs)

text \<open>
  C8.  \<open>reset\<close> empties all six tables; on tables that are already empty it changes
  nothing.  After a reset, registering the same things again and calling \<open>applyRoutes\<close>
  gives what a first cycle gives: the same tables, the same outcome (normal return or the
  same error), and the same calls in the same order, the routers created in the later cycle
  being numbered on from those created before.  Nothing of the earlier cycle shows in the
  later one.
\<close>

theorem reset_then_cycle_repeats:
  "routeMap (reset w) = [] \<and> controllerMap (reset w) = []
   \<and> controllerMiddlewareMap (reset w) = [] \<and> routeMiddlewareMap (reset w) = []
   \<and> routerMap (reset w) = [] \<and> parentMap (reset w) = []
   \<and> reset (reset w) = reset w \<and> reset initial = initial
   \<and> (list_all is_registration ops \<longrightarrow>
        same_tables (run ops initial) (run ops (reset w))
        \<and> routerMap (run ops (reset w)) = []
        \<and> fst (applyRoutes (External a) (run ops (reset w)))
            = fst (applyRoutes (External a) (run ops initial))
        \<and> new_events w (snd (applyRoutes (External a) (run ops (reset w))))
            = map (shift_event (created w)) (trace (snd (applyRoutes (External a) (run ops initial))))
        \<and> routerMap (snd (applyRoutes (External a) (run ops (reset w))))
            = shift_routers (created w) (routerMap (snd (applyRoutes (External a) (run ops initial)))))"
proof -
  have cleared: "routeMap (reset w) = [] \<and> controllerMap (reset w) = []
      \<and> controllerMiddlewareMap (reset w) = [] \<and> routeMiddlewareMap (reset w) = []
      \<and> routerMap (reset w) = [] \<and> parentMap (reset w) = []"
    by (simp add: reset_def)
  have idle: "reset (reset w) = reset w \<and> reset initial = initial"
    by (simp add: reset_def initial_def)
  have cycle: "same_tables (run ops initial) (run ops (reset w))
        \<and> routerMap (run ops (reset w)) = []
        \<and> fst (applyRoutes (External a) (run ops (reset w)))
            = fst (applyRoutes (External a) (run ops initial))
        \<and> new_events w (snd (applyRoutes (External a) (run ops (reset w))))
            = map (shift_event (created w)) (trace (snd (applyRoutes (External a) (run ops initial))))
        \<and> routerMap (snd (applyRoutes (External a) (run ops (reset w))))
            = shift_routers (created w) (routerMap (snd (applyRoutes (External a) (run ops initial))))"
    if regs: "list_all is_registration ops"
  proof -
    have rel: "renumbered (created w) (trace w) (run ops initial) (run ops (reset w))"
      using regs renumbered_reset by (rule renumbered_run)
    have "routerMap (run ops initial) = []"
      using regs unfolding run_def
    proof (induction ops rule: rev_induct)
      case Nil
      then show ?case by (simp add: initial_def)
    next
      case (snoc x xs)
      then show ?case
        by (cases x) (simp_all add: addController_def addControllerMiddleware_def
            addParent_def addRouteMiddleware_def)
    qed
    with rel have empty: "routerMap (run ops (reset w)) = []"
      by (simp add: renumbered_def shift_routers_def)
    note after = renumbered_applyRoutes [OF rel, of a]
    from after have "trace (snd (applyRoutes (External a) (run ops (reset w))))
        = trace w @ map (shift_event (created w))
            (trace (snd (applyRoutes (External a) (run ops initial))))"
      by (simp add: renumbered_def)
    then have events: "new_events w (snd (applyRoutes (External a) (run ops (reset w))))
        = map (shift_event (created w)) (trace (snd (applyRoutes (External a) (run ops initial))))"
      by (rule new_events_append)
    from rel have "same_tables (run ops initial) (run ops (reset w))"
      by (simp add: renumbered_def)
    moreover from after have "routerMap (snd (applyRoutes (External a) (run ops (reset w))))
        = shift_routers (created w) (routerMap (snd (applyRoutes (External a) (run ops initial))))"
      unfolding renumbered_def by blast
    moreover from after have "fst (applyRoutes (External a) (run ops (reset w)))
        = fst (applyRoutes (External a) (run ops initial))"
      by blast
    ultimately show ?thesis
      using empty events by blast
  qed
  from cleared idle cycle show ?thesis by blast
qed

theorem reset_then_cycle_repeats_witness:
  "list_all is_registration example_ops
   \<and> created (snd (applyRoutes (External 0) (run example_ops initial))) = 2
   \<and> fst (applyRoutes (External 0)
        (run example_ops (reset (snd (applyRoutes (External 0) (run example_ops initial))))))
      = None
   \<and> new_events (snd (applyRoutes (External 0) (run example_ops initial)))
        (snd (applyRoutes (External 0)
          (run example_ops (reset (snd (applyRoutes (External 0) (run example_ops initial)))))))
      = [Create 2 None, Call (Created 2) (Use [30]), Call (Created 2) (UsePath ''/x'' [41]),
         Call (Created 2) (Verb ''get'' ''/x'' 10), Call (External 0) (Mount ''/a'' (Created 2)),
         Create 3 None, Call (Created 3) (UsePath ''/y'' [40]),
         Call (Created 3) (Verb ''get'' ''/y'' 11), Call (Created 3) (Use [30]),
         Call (Created 2) (Mount ''/b'' (Created 3))]"
proof -
  let ?first = "applyRoutes (External 0) (run example_ops initial)"
  have regs: "list_all is_registration example_ops"
    by (simp add: example_ops_def)
  have first: "fst ?first = None"
    and tr: "trace (snd ?first)
      = [Create 0 None, Call (Created 0) (Use [30]), Call (Created 0) (UsePath ''/x'' [41]),
         Call (Created 0) (Verb ''get'' ''/x'' 10), Call (External 0) (Mount ''/a'' (Created 0)),
         Create 1 None, Call (Created 1) (UsePath ''/y'' [40]),
         Call (Created 1) (Verb ''get'' ''/y'' 11), Call (Created 1) (Use [30]),
         Call (Created 0) (Mount ''/b'' (Created 1))]"
    and cr: "created (snd ?first) = 2"
    by (simp_all add: example_defs registration_defs assembly_defs)
  note again = reset_then_cycle_repeats [of "snd ?first" example_ops 0,
      THEN conjunct2, THEN conjunct2, THEN conjunct2, THEN conjunct2, THEN conjunct2,
      THEN conjunct2, THEN conjunct2, THEN conjunct2, rule_format, OF regs]
  from again first have same: "fst (applyRoutes (External 0) (run example_ops (reset (snd ?first))))
      = None"
    by simp
  from again have "new_events (snd ?first)
      (snd (applyRoutes (External 0) (run example_ops (reset (snd ?first)))))
      = map (shift_event (created (snd ?first))) (trace (snd ?first))"
    by blast
  then have events: "new_events (snd ?first)
      (snd (applyRoutes (External 0) (run example_ops (reset (snd ?first)))))
      = [Create 2 None, Call (Created 2) (Use [30]), Call (Created 2) (UsePath ''/x'' [41]),
         Call (Created 2) (Verb ''get'' ''/x'' 10), Call (External 0) (Mount ''/a'' (Created 2)),
         Create 3 None, Call (Created 3) (UsePath ''/y'' [40]),
         Call (Created 3) (Verb ''get'' ''/y'' 11), Call (Created 3) (Use [30]),
         Call (Created 2) (Mount ''/b'' (Created 3))]"
    by (simp only: cr tr) simp
  from regs cr same events show ?thesis
    by - (intro conjI, assumption+)
qed

text \<open>
  C9.  The registration operations should never raise an error.  \<open>addRoute\<close> does, when
  the method name is the name of a property that a plain object inherits: for a controller
  without routes and the method name \<open>constructor\<close> it stores an empty route spec and
  throws a \<open>TypeError\<close>, and no route is registered.
\<close>

theorem addRoute_throws_for_inherited_name:
  "addRoute 1 ''constructor'' ''/x'' 10 initial
     = (Some TypeError, initial\<lparr>routeMap := [(1, [])]\<rparr>)
   \<and> route_lookup (snd (addRoute 1 ''constructor'' ''/x'' 10 initial)) 1 ''constructor'' ''/x''
     = None"
  by (simp add: addRoute_def initial_def route_lookup_def)

text \<open>
  C10.  A controller that has a router recorded also has a controller spec: this holds in
  every world the module can be brought into, after each controller of the first pass, after
  each pair of the second pass and when \<open>applyRoutes\<close> is over.  Hence the unchecked read
  of the child's spec in \<open>processParents\<close> never meets a missing entry: \<open>applyRoutes\<close>
  does not end in a \<open>TypeError\<close>.
\<close>

theorem recorded_router_has_controller_spec:
  assumes "reachable w"
  shows "routers_have_spec w
    \<and> (\<forall>k. routers_have_spec (pass1 app (take k (controllerMap w)) w))
    \<and> (\<forall>k. routers_have_spec
          (snd (pass2 (take k (parentMap w)) (pass1 app (controllerMap w) w))))
    \<and> routers_have_spec (snd (applyRoutes app w))
    \<and> fst (applyRoutes app w) \<noteq> Some TypeError"
proof -
  let ?w1 = "pass1 app (controllerMap w) w"
  have inv: "routers_have_spec w"
    using assms by (simp add: reachable_invariants)
  have p1: "routers_have_spec (pass1 app (take k (controllerMap w)) w)" for k
    using inv by (rule routers_have_spec_pass1) (rule set_take_subset)
  have w1: "routers_have_spec ?w1"
    using p1 [of "length (controllerMap w)"] by simp
  have p2: "routers_have_spec (snd (pass2 pairs ?w1))" for pairs
    using w1 by (rule routers_have_spec_pass2)
  have run: "applyRoutes app w = pass2 (parentMap w) ?w1"
    by (simp add: applyRoutes_def Let_def)
  have "fst (applyRoutes app w) \<noteq> Some TypeError"
    unfolding run using w1 by (rule pass2_no_TypeError)
  with inv p1 p2 run show ?thesis by simp
qed

theorem recorded_router_has_controller_spec_witness:
  "routers_have_spec (snd (applyRoutes (External 0) (run orphan_ops initial)))
   \<and> routerMap (snd (applyRoutes (External 0) (run orphan_ops initial)))
      = [(1, Created 0), (2, Created 1), (4, Created 2), (5, Created 3)]
   \<and> fst (applyRoutes (External 0) (run orphan_ops initial)) \<noteq> Some TypeError
   \<and> fst (applyRoutes (External 0) (run example_ops initial)) \<noteq> Some TypeError"
proof -
  have r: "reachable (run orphan_ops initial)" "reachable (run example_ops initial)"
    by (rule reachable_run [OF reachable_initial])+
  have "routerMap (snd (applyRoutes (External 0) (run orphan_ops initial)))
      = [(1, Created 0), (2, Created 1), (4, Created 2), (5, Created 3)]"
    by (simp add: example_defs registration_defs assembly_defs)
  with recorded_router_has_controller_spec [OF r(1), of "External 0"]
    recorded_router_has_controller_spec [OF r(2), of "External 0"]
  show ?thesis by blast
qed

end
